theory Spec2Isabelle
  imports Complex_Main
begin

section \<open>JavaScript strings\<close>

text \<open>
  A \<^typ>\<open>string\<close> stands for a JavaScript string whose UTF-16 code units all lie in
  the Latin-1 range (U+0000 .. U+00FF): one \<^typ>\<open>char\<close> per code unit, so that
  \<^const>\<open>length\<close> is the \<^verbatim>\<open>.length\<close> of the source.
\<close>

definition isSpace :: "char \<Rightarrow> bool" where
  \<comment> \<open>what \<^verbatim>\<open>\s\<close> and \<^verbatim>\<open>trim\<close> treat as white space, below U+0100: TAB, LF, VT, FF, CR, SPACE, NBSP\<close>
  "isSpace c = (of_char c \<in> {9, 10, 11, 12, 13, 32, 160 :: nat})"

definition trim :: "string \<Rightarrow> string" where
  "trim s = rev (dropWhile isSpace (rev (dropWhile isSpace s)))"

definition slice :: "string \<Rightarrow> int \<Rightarrow> int \<Rightarrow> string" where
  \<comment> \<open>\<^verbatim>\<open>text.slice(start, end)\<close> for \<^verbatim>\<open>0 <= start\<close> and \<^verbatim>\<open>0 <= end\<close>\<close>
  "slice s b e = take (nat (e - b)) (drop (nat b) s)"

definition toLowerChar :: "char \<Rightarrow> char" where
  \<comment> \<open>\<^verbatim>\<open>toLowerCase\<close> on one code unit below U+0100: A-Z and the accented capitals U+00C0-U+00DE
      (without the multiplication sign U+00D7) move up by 32\<close>
  "toLowerChar c =
     (let n = (of_char c :: nat)
      in if (65 \<le> n \<and> n \<le> 90) \<or> (192 \<le> n \<and> n \<le> 222 \<and> n \<noteq> 215) then char_of (n + 32) else c)"

definition toLowerCase :: "string \<Rightarrow> string" where
  "toLowerCase s = map toLowerChar s"

fun includesStr :: "string \<Rightarrow> string \<Rightarrow> bool" where
  \<comment> \<open>\<^verbatim>\<open>s.includes(sub)\<close>\<close>
  "includesStr [] sub = (sub = [])"
| "includesStr (c # cs) sub = (take (length sub) (c # cs) = sub \<or> includesStr cs sub)"

definition indexOf :: "string \<Rightarrow> char \<Rightarrow> nat \<Rightarrow> int" where
  \<comment> \<open>\<^verbatim>\<open>s.indexOf(ch, from)\<close> for a single character: the first position at or after
      \<open>from\<close>, or \<open>-1\<close>\<close>
  "indexOf s ch from =
     (case dropWhile (\<lambda>x. x \<noteq> ch) (drop from s) of
        [] \<Rightarrow> -1
      | _ # _ \<Rightarrow> int (from + length (takeWhile (\<lambda>x. x \<noteq> ch) (drop from s))))"

function splitWs :: "string \<Rightarrow> string list" where
  \<comment> \<open>\<^verbatim>\<open>s.split(/\s+/)\<close>: cut at every maximal run of white space\<close>
  "splitWs s =
     (case dropWhile (\<lambda>c. \<not> isSpace c) s of
        [] \<Rightarrow> [s]
      | _ # rest \<Rightarrow> takeWhile (\<lambda>c. \<not> isSpace c) s # splitWs (dropWhile isSpace rest))"
  by pat_completeness auto
termination
proof (relation "measure length", goal_cases)
  case 1
  show ?case by simp
next
  case (2 s x rest)
  have "length (dropWhile isSpace rest) \<le> length rest" by (rule length_dropWhile_le)
  also have "length rest < length (dropWhile (\<lambda>c. \<not> isSpace c) s)" using 2 by simp
  also have "\<dots> \<le> length s" by (rule length_dropWhile_le)
  finally show ?case by simp
qed

function splitSepWs :: "char \<Rightarrow> string \<Rightarrow> string list" where
  \<comment> \<open>\<^verbatim>\<open>s.split(/,\s*/)\<close> and \<^verbatim>\<open>s.split(/;\s*/)\<close>: cut at every separator character together
      with the white space that follows it\<close>
  "splitSepWs sep s =
     (case dropWhile (\<lambda>c. c \<noteq> sep) s of
        [] \<Rightarrow> [s]
      | _ # rest \<Rightarrow> takeWhile (\<lambda>c. c \<noteq> sep) s # splitSepWs sep (dropWhile isSpace rest))"
  by pat_completeness auto
termination
proof (relation "measure (\<lambda>(sep, s). length s)", goal_cases)
  case 1
  show ?case by simp
next
  case (2 sep s x rest)
  have "length (dropWhile isSpace rest) \<le> length rest" by (rule length_dropWhile_le)
  also have "length rest < length (dropWhile (\<lambda>c. c \<noteq> sep) s)" using 2 by simp
  also have "\<dots> \<le> length s" by (rule length_dropWhile_le)
  finally show ?case by simp
qed

declare splitWs.simps [simp del] splitSepWs.simps [simp del]

fun splitChar :: "char \<Rightarrow> string \<Rightarrow> string list" where
  \<comment> \<open>\<^verbatim>\<open>s.split(' ')\<close>: cut at every single separator character\<close>
  "splitChar sep [] = [[]]"
| "splitChar sep (c # cs) =
     (if c = sep then [] # splitChar sep cs
      else (case splitChar sep cs of [] \<Rightarrow> [[c]] | w # ws \<Rightarrow> (c # w) # ws))"

fun join :: "string \<Rightarrow> string list \<Rightarrow> string" where
  \<comment> \<open>\<^verbatim>\<open>parts.join(sep)\<close>\<close>
  "join sep [] = []"
| "join sep [x] = x"
| "join sep (x # y # ys) = x @ sep @ join sep (y # ys)"

fun replaceFirst :: "string \<Rightarrow> string \<Rightarrow> string \<Rightarrow> string" where
  \<comment> \<open>\<^verbatim>\<open>s.replace(pat, rep)\<close> with a string pattern: only the first occurrence is replaced\<close>
  "replaceFirst [] pat rep = (if pat = [] then rep else [])"
| "replaceFirst (c # cs) pat rep =
     (if take (length pat) (c # cs) = pat then rep @ drop (length pat) (c # cs)
      else c # replaceFirst cs pat rep)"

definition isDigit :: "char \<Rightarrow> bool" where
  "isDigit c = (48 \<le> (of_char c :: nat) \<and> (of_char c :: nat) \<le> 57)"

definition digitChar :: "nat \<Rightarrow> char" where
  "digitChar d = ''0123456789'' ! d"

fun digitsOfNat :: "nat \<Rightarrow> string" where
  "digitsOfNat n = (if n < 10 then [digitChar n] else digitsOfNat (n div 10) @ [digitChar (n mod 10)])"

definition natOfDigits :: "string \<Rightarrow> nat" where
  "natOfDigits ds = foldl (\<lambda>acc c. 10 * acc + (of_char c - 48)) 0 ds"

definition stringOfInt :: "int \<Rightarrow> string" where
  \<comment> \<open>\<^verbatim>\<open>String(n)\<close> for a whole number\<close>
  "stringOfInt n = (if n < 0 then CHR ''-'' # digitsOfNat (nat (- n)) else digitsOfNat (nat n))"

definition parseIntStr :: "string \<Rightarrow> int option" where
  \<comment> \<open>\<^verbatim>\<open>parseInt(s, 10)\<close>: leading white space, an optional sign, then the longest run of
      digits; \<^const>\<open>None\<close> is \<^verbatim>\<open>NaN\<close>\<close>
  "parseIntStr s =
     (let s1 = dropWhile isSpace s;
          neg = (s1 \<noteq> [] \<and> hd s1 = CHR ''-'');
          s2 = (if s1 \<noteq> [] \<and> (hd s1 = CHR ''-'' \<or> hd s1 = CHR ''+'') then tl s1 else s1);
          ds = takeWhile isDigit s2
      in if ds = [] then None
         else Some (if neg then - int (natOfDigits ds) else int (natOfDigits ds)))"

text \<open>
  A field that the extraction service may deliver either as a number or as a string
  (\<^verbatim>\<open>pmid\<close>, \<^verbatim>\<open>year\<close>, \<^verbatim>\<open>volume\<close>, \<^verbatim>\<open>issue\<close>, \<^verbatim>\<open>pages\<close>); numbers are whole numbers.
\<close>

datatype scalar = Num int | Str string

fun truthyScalar :: "scalar \<Rightarrow> bool" where
  "truthyScalar (Num n) = (n \<noteq> 0)"
| "truthyScalar (Str s) = (s \<noteq> [])"

fun String :: "scalar \<Rightarrow> string" where
  "String (Num n) = stringOfInt n"
| "String (Str s) = s"

fun parseInt :: "scalar \<Rightarrow> int option" where
  "parseInt (Num n) = Some n"
| "parseInt (Str s) = parseIntStr s"

text \<open>
  An optional property: \<^const>\<open>None\<close> is an absent (\<^verbatim>\<open>undefined\<close> or \<^verbatim>\<open>null\<close>) property.
  \<open>truthy\<close> is JavaScript's test \<^verbatim>\<open>if (x.field)\<close> on an optional string, \<open>truthyS\<close> on an
  optional number-or-string.
\<close>

definition truthy :: "string option \<Rightarrow> bool" where
  "truthy v = (case v of None \<Rightarrow> False | Some s \<Rightarrow> s \<noteq> [])"

definition truthyS :: "scalar option \<Rightarrow> bool" where
  "truthyS v = (case v of None \<Rightarrow> False | Some x \<Rightarrow> truthyScalar x)"

section \<open>JavaScript numbers\<close>

text \<open>
  A JavaScript number that the code only ever uses as a whole number (an offset, a size, an
  index, a counter) is an \<^typ>\<open>int\<close>.  Every other number (a similarity, a weight, a score, a
  threshold) is an IEEE 754 binary64 value, represented by the rational number that it
  denotes.  A literal such as \<^verbatim>\<open>0.2\<close> and the result of \<^verbatim>\<open>+\<close>, \<^verbatim>\<open>*\<close> and \<^verbatim>\<open>/\<close> is the
  exact value rounded to the nearest binary64 value, ties to the even significand:
  \<open>roundDouble\<close> scales the magnitude by a power of two to a number from \<open>2^52\<close> up to
  \<open>2^53\<close> and rounds that to a whole number.  The exponent range is not bounded, which
  agrees with binary64 for magnitudes from \<open>2^-1022\<close> up to \<open>2^1024\<close>; the numbers of this
  program are 0 or lie between \<open>2^-40\<close> and \<open>2^8\<close>.  \<^verbatim>\<open>NaN\<close> and the infinities do not occur:
  every division of the source is guarded by a test that the divisor is positive.
\<close>

type_synonym double = rat

definition roundHalfEven :: "rat \<Rightarrow> int" where
  "roundHalfEven q =
     (let f = \<lfloor>q\<rfloor>; r = q - of_int f
      in if r < 1 / 2 then f else if 1 / 2 < r then f + 1 else if even f then f else f + 1)"

function bitLength :: "int \<Rightarrow> int" where
  \<comment> \<open>the number of binary digits of a positive whole number\<close>
  "bitLength n = (if n \<le> 0 then 0 else 1 + bitLength (n div 2))"
  by pat_completeness auto
termination
  by (relation "measure nat") auto

declare bitLength.simps [simp del]

definition binade :: "rat \<Rightarrow> int" where
  \<comment> \<open>for \<open>0 < x\<close>, the exponent \<open>e\<close> with \<open>2^e \<le> x < 2^(e+1)\<close>\<close>
  "binade x =
     (case quotient_of x of (a, b) \<Rightarrow>
        let k = bitLength a - bitLength b
        in if 2 powi k \<le> x then k else k - 1)"

definition roundDouble :: "rat \<Rightarrow> double" where
  "roundDouble x =
     (if x = 0 then 0
      else let ulp = 2 powi (binade \<bar>x\<bar> - 52)
           in sgn x * (of_int (roundHalfEven (\<bar>x\<bar> / ulp)) * ulp))"

definition fadd :: "double \<Rightarrow> double \<Rightarrow> double" where
  \<comment> \<open>\<^verbatim>\<open>a + b\<close>\<close>
  "fadd a b = roundDouble (a + b)"

definition fmul :: "double \<Rightarrow> double \<Rightarrow> double" where
  \<comment> \<open>\<^verbatim>\<open>a * b\<close>\<close>
  "fmul a b = roundDouble (a * b)"

definition fdiv :: "double \<Rightarrow> double \<Rightarrow> double" where
  \<comment> \<open>\<^verbatim>\<open>a / b\<close> for \<open>b \<noteq> 0\<close>\<close>
  "fdiv a b = roundDouble (a / b)"

section \<open>Windowing (createWindows)\<close>

text \<open>A window object; its properties \<^verbatim>\<open>index\<close>, \<^verbatim>\<open>start\<close>, \<^verbatim>\<open>end\<close>, \<^verbatim>\<open>length\<close>, \<^verbatim>\<open>text\<close>.\<close>

record window =
  win_index :: int
  win_start :: int
  win_end :: int
  win_length :: int
  win_text :: string

text \<open>
  The \<^verbatim>\<open>while (start < text.length)\<close> loop of \<^verbatim>\<open>createWindows\<close>.  The loop variables
  \<^verbatim>\<open>start\<close>, \<^verbatim>\<open>windowIndex\<close> and the array \<^verbatim>\<open>windows\<close> are passed along; \<^verbatim>\<open>break\<close>
  is the branch that returns.  The result is \<^const>\<open>None\<close> when the loop does not end.
\<close>

partial_function (option) createWindows_loop ::
  "string \<Rightarrow> int \<Rightarrow> int \<Rightarrow> int \<Rightarrow> int \<Rightarrow> window list \<Rightarrow> window list option"
where
  "createWindows_loop text windowSize step start windowIndex windows =
     (if start < int (length text) then
        let end = min (start + windowSize) (int (length text));
            windowText = slice text start end;
            windows1 = windows @ [\<lparr>win_index = windowIndex, win_start = start, win_end = end,
                                   win_length = end - start, win_text = windowText\<rparr>];
            windowIndex1 = windowIndex + 1;
            start1 = start + step
        in
          if start1 < int (length text) \<and> int (length text) - start1 < step then
            let finalStart = max 0 (int (length text) - windowSize) in
            if finalStart > win_start (last windows1) then
              Some (windows1 @ [\<lparr>win_index = windowIndex1, win_start = finalStart,
                                  win_end = int (length text),
                                  win_length = int (length text) - finalStart,
                                  win_text = drop (nat finalStart) text\<rparr>])
            else Some windows1
          else createWindows_loop text windowSize step start1 windowIndex1 windows1
      else Some windows)"

declare createWindows_loop.simps [code]

definition normWindowSize :: "int \<Rightarrow> int" where
  "normWindowSize windowSize = (if windowSize \<le> 0 then 2000 else windowSize)"

definition normOverlap :: "int \<Rightarrow> int \<Rightarrow> int" where
  \<comment> \<open>the two \<^verbatim>\<open>overlap\<close> adjustments, given the window size already adjusted\<close>
  "normOverlap windowSize overlap =
     (let overlap1 = (if overlap < 0 then 0 else overlap)
      in if overlap1 \<ge> windowSize then windowSize - 1 else overlap1)"

definition createWindows :: "string \<Rightarrow> int \<Rightarrow> int \<Rightarrow> window list option" where
  "createWindows text windowSize overlap =
     (if text = [] \<or> trim text = [] then Some []
      else
        let windowSize1 = normWindowSize windowSize;
            overlap1 = normOverlap windowSize1 overlap;
            step = windowSize1 - overlap1
        in createWindows_loop text windowSize1 step 0 0 [])"

definition win_range :: "window \<Rightarrow> int \<times> int" where
  "win_range w = (win_start w, win_end w)"

section \<open>Data model\<close>

text \<open>
  An author entry of a citation is an object with optional name parts, or a plain string;
  the \<^verbatim>\<open>authors\<close> property is an array of entries, or one string.
\<close>

record author =
  family :: "string option"
  given :: "string option"
  lastName :: "string option"
  firstName :: "string option"

datatype author_item = AuthorObj author | AuthorStr string

datatype authors_field = AuthorsArr "author_item list" | AuthorsStr string

datatype status = Valid | Suspicious | Mismatch | Invalid | Incomplete

text \<open>The common shape that both external records and the extracted citation are normalised to.\<close>

record norm_author =
  n_family :: string
  n_given :: string

record normalized =
  n_title :: string
  n_authors :: "norm_author list"
  n_year :: "int option"  \<comment> \<open>\<^const>\<open>None\<close> is \<^verbatim>\<open>null\<close> or \<^verbatim>\<open>NaN\<close>: both are falsy and never compared\<close>
  n_journal :: string
  n_volume :: scalar
  n_pages :: scalar
  n_doi :: string

record match_score =
  overall :: double
  fieldScores :: "(string \<times> double) list"  \<comment> \<open>the property \<^verbatim>\<open>fields\<close>, keys in insertion order\<close>
  fieldsCompared :: nat

text \<open>The parts of a CrossRef work that \<^verbatim>\<open>normalizeCrossRef\<close> reads.\<close>

record date_obj =
  date_parts :: "int list list option"

record crossref_work =
  cr_title :: "string list option"
  cr_author :: "author list option"
  cr_published_print :: "date_obj option"
  cr_issued :: "date_obj option"
  cr_container_title :: "string list option"
  cr_volume :: "string option"
  cr_page :: "string option"
  cr_DOI :: "string option"

text \<open>The parts of an OpenAlex work that \<^verbatim>\<open>normalizeOpenAlex\<close> reads.\<close>

record oa_author =
  display_name :: "string option"

record oa_authorship =
  oa_author :: "oa_author option"

record oa_source =
  src_display_name :: "string option"

record oa_location =
  loc_source :: "oa_source option"

record oa_biblio =
  first_page :: "string option"
  last_page :: "string option"
  b_volume :: "string option"

record openalex_work =
  oa_title :: "string option"
  oa_authorships :: "oa_authorship list option"
  oa_publication_year :: "int option"
  oa_primary_location :: "oa_location option"
  oa_biblio :: "oa_biblio option"
  oa_doi :: "string option"

record validation_bag =
  crossref :: "crossref_work option"
  openalex :: "openalex_work option"
  matchScore :: "match_score option"

text \<open>
  An extraction: the raw record of the extraction service, the properties that
  \<^verbatim>\<open>processExtraction\<close> adds, and the properties that validation sets.  The properties
  \<^verbatim>\<open>id\<close> and \<^verbatim>\<open>complete\<close> are the fields \<open>ext_id\<close> and \<open>ext_complete\<close>.
\<close>

record extraction =
  doi :: "string option"
  pmid :: "scalar option"
  isbn :: "string option"
  title :: "string option"
  year :: "scalar option"
  authors :: "authors_field option"
  container_title :: "string option"
  volume :: "scalar option"
  issue :: "scalar option"
  pages :: "scalar option"
  raw_text :: "string option"
  query_bibliographic :: "string option"
  journal :: "string option"
  page :: "scalar option"
  ext_complete :: "bool option"
  position :: "string option"
  reason :: "string option"
  authors_truncated :: "bool option"
  ext_id :: "string option"
  index :: "int option"
  colorIndex :: "int option"
  windowIndex :: "int option"
  error :: bool
  errorMessage :: "string option"
  validationStatus :: "status option"
  validationMessage :: "string option"
  validation :: "validation_bag option"

definition emptyExtraction :: extraction where
  \<comment> \<open>the object \<^verbatim>\<open>{}\<close>\<close>
  "emptyExtraction =
     \<lparr>doi = None, pmid = None, isbn = None, title = None, year = None, authors = None,
      container_title = None, volume = None, issue = None, pages = None, raw_text = None,
      query_bibliographic = None, journal = None, page = None, ext_complete = None,
      position = None, reason = None, authors_truncated = None, ext_id = None, index = None,
      colorIndex = None, windowIndex = None, error = False, errorMessage = None,
      validationStatus = None, validationMessage = None, validation = None\<rparr>"

text \<open>The part of the extraction state that the processing run reads and writes.\<close>

record ext_state =
  extractions :: "extraction list"
  processingResults :: "extraction list"
  shouldCancel :: bool

definition authorsLength :: "authors_field option \<Rightarrow> nat" where
  \<comment> \<open>\<^verbatim>\<open>x.authors?.length\<close>, with 0 for an absent property (which is neither \<^verbatim>\<open>> 0\<close> nor truthy)\<close>
  "authorsLength a =
     (case a of None \<Rightarrow> 0 | Some (AuthorsArr xs) \<Rightarrow> length xs | Some (AuthorsStr s) \<Rightarrow> length s)"

definition firstFamily :: "authors_field option \<Rightarrow> string option" where
  \<comment> \<open>\<^verbatim>\<open>x.authors[0].family?.toLowerCase().trim()\<close>; a string has no property \<^verbatim>\<open>family\<close>\<close>
  "firstFamily a =
     (case a of
        Some (AuthorsArr (AuthorObj p # _)) \<Rightarrow> map_option (\<lambda>f. trim (toLowerCase f)) (family p)
      | _ \<Rightarrow> None)"

definition stripIsbn :: "string \<Rightarrow> string" where
  \<comment> \<open>\<^verbatim>\<open>isbn.replace(/[-\s]/g, '')\<close>\<close>
  "stripIsbn s = filter (\<lambda>c. c \<noteq> CHR ''-'' \<and> \<not> isSpace c) s"

section \<open>String similarity (utils/similarity.js)\<close>

definition stringSimilarity :: "string \<Rightarrow> string \<Rightarrow> double" where
  "stringSimilarity str1 str2 =
     (if str1 = [] \<or> str2 = [] then 0
      else
        let words1 = remdups (splitWs (toLowerCase str1));
            words2 = remdups (splitWs (toLowerCase str2));
            intersectionSize = length (filter (\<lambda>word. word \<in> set words2) words1);
            unionSize = int (length words1) + int (length words2) - int intersectionSize
        in if unionSize > 0 then fdiv (of_nat intersectionSize) (of_int unionSize) else 0)"

section \<open>Extraction state (state/extraction-state.js)\<close>

definition WINDOW_COLORS_length :: int where
  "WINDOW_COLORS_length = 6"

definition extractionId :: "int \<Rightarrow> string" where
  \<comment> \<open>the template \<^verbatim>\<open>`extraction-${index}`\<close>\<close>
  "extractionId i = ''extraction-'' @ stringOfInt i"

definition processExtraction :: "extraction \<Rightarrow> int \<Rightarrow> int \<Rightarrow> extraction" where
  "processExtraction rawExtraction idx wIndex =
     rawExtraction\<lparr>ext_id := Some (extractionId idx), index := Some idx,
                   colorIndex := Some (idx mod WINDOW_COLORS_length), windowIndex := Some wIndex\<rparr>"

definition extractionsMatchByFields :: "extraction \<Rightarrow> extraction \<Rightarrow> bool" where
  "extractionsMatchByFields ext1 ext2 =
     (if truthy (doi ext1) \<and> truthy (doi ext2) \<and>
         toLowerCase (the (doi ext1)) = toLowerCase (the (doi ext2)) then True
      else if truthyS (pmid ext1) \<and> truthyS (pmid ext2) \<and>
         String (the (pmid ext1)) = String (the (pmid ext2)) then True
      else if truthy (isbn ext1) \<and> truthy (isbn ext2) \<and>
         stripIsbn (the (isbn ext1)) = stripIsbn (the (isbn ext2)) then True
      else if authorsLength (authors ext1) > 0 \<and> authorsLength (authors ext2) > 0 \<and>
         truthy (firstFamily (authors ext1)) \<and> truthy (firstFamily (authors ext2)) \<and>
         firstFamily (authors ext1) = firstFamily (authors ext2) then True
      else if truthy (title ext1) \<and> truthy (title ext2) \<and>
         (let title1 = trim (toLowerCase (the (title ext1)));
              title2 = trim (toLowerCase (the (title ext2)));
              minLen = min (length title1) (length title2)
          in minLen \<ge> 10 \<and>
             (includesStr title1 title2 \<or> includesStr title2 title1 \<or>
              (let checkLen = min 15 minLen in take checkLen title1 = take checkLen title2)))
         then True
      else if truthyS (year ext1) \<and> truthyS (year ext2) \<and>
         truthy (container_title ext1) \<and> truthy (container_title ext2) \<and>
         String (the (year ext1)) = String (the (year ext2)) \<and>
         toLowerCase (the (container_title ext1)) = toLowerCase (the (container_title ext2))
         then True
      else False)"

definition extractionsOverlap :: "extraction \<Rightarrow> extraction \<Rightarrow> bool" where
  "extractionsOverlap ext1 ext2 =
     (if error ext1 \<or> error ext2 then False
      else if ext_complete ext1 \<noteq> Some False \<or> ext_complete ext2 \<noteq> Some False then False
      else
        let hasComplementaryPositions =
              ((position ext1 = Some ''end'' \<and> position ext2 = Some ''start'') \<or>
               (position ext1 = Some ''start'' \<and> position ext2 = Some ''end''))
        in if \<not> hasComplementaryPositions then False
           else extractionsMatchByFields ext1 ext2)"

definition completeSupersedes :: "extraction \<Rightarrow> extraction \<Rightarrow> bool" where
  "completeSupersedes incompleteEnd completeExtraction =
     (if error incompleteEnd \<or> error completeExtraction then False
      else if ext_complete incompleteEnd \<noteq> Some False \<or> position incompleteEnd \<noteq> Some ''end''
        then False
      else if ext_complete completeExtraction = Some False then False
      else extractionsMatchByFields incompleteEnd completeExtraction)"

fun calculateSimilarity_loop :: "string \<Rightarrow> string \<Rightarrow> nat \<Rightarrow> nat \<Rightarrow> nat" where
  \<comment> \<open>\<^verbatim>\<open>for (const char of shorter)\<close> with the variables \<^verbatim>\<open>matches\<close> and \<^verbatim>\<open>longerIdx\<close>\<close>
  "calculateSimilarity_loop longer [] matches longerIdx = matches"
| "calculateSimilarity_loop longer (ch # rest) matches longerIdx =
     (let foundIdx = indexOf longer ch longerIdx
      in if foundIdx \<noteq> -1 then calculateSimilarity_loop longer rest (matches + 1) (nat foundIdx + 1)
         else calculateSimilarity_loop longer rest matches longerIdx)"

definition calculateSimilarity :: "string \<Rightarrow> string \<Rightarrow> rat" where
  "calculateSimilarity str1 str2 =
     (if str1 = [] \<or> str2 = [] then 0
      else if str1 = str2 then 1
      else
        let longer = (if length str1 > length str2 then str1 else str2);
            shorter = (if length str1 > length str2 then str2 else str1)
        in if length longer = 0 then 1
           else if includesStr longer shorter then of_nat (length shorter) / of_nat (length longer)
           else of_nat (2 * calculateSimilarity_loop longer shorter 0 0) /
                of_nat (length str1 + length str2))"

definition extractionsAreDuplicates :: "extraction \<Rightarrow> extraction \<Rightarrow> bool" where
  "extractionsAreDuplicates ext1 ext2 =
     (if truthy (doi ext1) \<and> truthy (doi ext2) \<and>
         toLowerCase (the (doi ext1)) = toLowerCase (the (doi ext2)) then True
      else if truthyS (pmid ext1) \<and> truthyS (pmid ext2) \<and>
         String (the (pmid ext1)) = String (the (pmid ext2)) then True
      else if truthy (isbn ext1) \<and> truthy (isbn ext2) \<and>
         stripIsbn (the (isbn ext1)) = stripIsbn (the (isbn ext2)) then True
      else if \<not> truthy (title ext1) \<or> \<not> truthy (title ext2) then False
      else
        let title1 = trim (toLowerCase (the (title ext1)));
            title2 = trim (toLowerCase (the (title ext2)));
            titleSimilarity = calculateSimilarity title1 title2
        in if titleSimilarity < 8 / 10 then False
           else if authorsLength (authors ext1) > 0 \<and> authorsLength (authors ext2) > 0 then
             (let author1 = firstFamily (authors ext1);
                  author2 = firstFamily (authors ext2)
              in if \<not> truthy author1 \<or> \<not> truthy author2 \<or> author1 \<noteq> author2 then False
                 else if truthyS (year ext1) \<and> truthyS (year ext2) \<and>
                         String (the (year ext1)) \<noteq> String (the (year ext2)) then False
                 else True)
           else False)"

definition addExtraction :: "ext_state \<Rightarrow> extraction \<Rightarrow> ext_state" where
  "addExtraction state e =
     state\<lparr>extractions := extractions state @ [e],
            processingResults := processingResults state @ [e]\<rparr>"

definition createErrorExtraction :: "int \<Rightarrow> int \<Rightarrow> string \<Rightarrow> extraction" where
  "createErrorExtraction idx wIndex msg =
     emptyExtraction\<lparr>ext_id := Some (extractionId idx), index := Some idx,
                      colorIndex := Some (idx mod WINDOW_COLORS_length),
                      windowIndex := Some wIndex, error := True, errorMessage := Some msg,
                      validationStatus := Some Invalid\<rparr>"

definition scoreExtraction :: "extraction \<Rightarrow> double" where
  \<comment> \<open>every addition before the last one adds whole numbers below 300 and is exact\<close>
  "scoreExtraction ext =
     fadd
     ((if validationStatus ext = Some Valid then 100
      else if validationStatus ext = Some Suspicious then 50
      else if validationStatus ext = Some Incomplete then 10
      else if validationStatus ext = Some Invalid then 5 else 0)
     + (if ext_complete ext \<noteq> Some False then 50 else 0)
     + (if truthy (doi ext) then 30 else 0)
     + (if truthyS (pmid ext) then 20 else 0)
     + (if truthy (isbn ext) then 20 else 0)
     + (if truthy (title ext) then 10 else 0)
     + (if truthyS (year ext) then 5 else 0)
     + (if truthy (container_title ext) then 5 else 0)
     + (if truthyS (volume ext) then 3 else 0)
     + (if truthyS (issue ext) then 3 else 0)
     + (if truthyS (pages ext) then 3 else 0)
     + (if authorsLength (authors ext) \<noteq> 0 then of_nat (min (authorsLength (authors ext) * 2) 10) else 0))
     (fmul (of_int (case windowIndex ext of None \<Rightarrow> 0 | Some w \<Rightarrow> w)) (roundDouble (1 / 10)))"

text \<open>
  The two nested loops of \<^verbatim>\<open>deduplicateExtractions\<close>.  The inner loop runs over the
  extractions after \<open>ext1\<close>; the set \<^verbatim>\<open>idsToRemove\<close> is a list without repetitions.
\<close>

fun dedup_inner :: "extraction \<Rightarrow> extraction list \<Rightarrow> string option list \<Rightarrow> string option list" where
  "dedup_inner ext1 [] idsToRemove = idsToRemove"
| "dedup_inner ext1 (ext2 # rest) idsToRemove =
     (if error ext2 \<or> ext_id ext2 \<in> set idsToRemove then dedup_inner ext1 rest idsToRemove
      else if extractionsAreDuplicates ext1 ext2 then
        (let score1 = scoreExtraction ext1; score2 = scoreExtraction ext2
         in if score1 \<ge> score2 then dedup_inner ext1 rest (List.insert (ext_id ext2) idsToRemove)
            else List.insert (ext_id ext1) idsToRemove)
      else dedup_inner ext1 rest idsToRemove)"

fun dedup_outer :: "extraction list \<Rightarrow> string option list \<Rightarrow> string option list" where
  "dedup_outer [] idsToRemove = idsToRemove"
| "dedup_outer (ext1 # rest) idsToRemove =
     (if error ext1 \<or> ext_id ext1 \<in> set idsToRemove then dedup_outer rest idsToRemove
      else dedup_outer rest (dedup_inner ext1 rest idsToRemove))"

definition deduplicateExtractions :: "ext_state \<Rightarrow> nat \<times> ext_state" where
  \<comment> \<open>the number returned, and the state afterwards\<close>
  "deduplicateExtractions state =
     (if length (extractions state) < 2 then (0, state)
      else
        let idsToRemove = dedup_outer (extractions state) []
        in if length idsToRemove = 0 then (0, state)
           else (length idsToRemove,
                 state\<lparr>extractions := filter (\<lambda>e. ext_id e \<notin> set idsToRemove) (extractions state),
                        processingResults :=
                          filter (\<lambda>e. ext_id e \<notin> set idsToRemove) (processingResults state)\<rparr>))"


section \<open>The duplicate rule in words\<close>






section \<open>Example records\<close>

definition smith :: author_item where
  "smith = AuthorObj \<lparr>family = Some ''smith'', given = None, lastName = None, firstName = None\<rparr>"







section \<open>Merging two incomplete extractions (mergeExtractions)\<close>

definition preferLonger :: "string option \<Rightarrow> string option \<Rightarrow> string option" where
  \<comment> \<open>the rule for \<^verbatim>\<open>title\<close>, \<^verbatim>\<open>container_title\<close> and \<^verbatim>\<open>query_bibliographic\<close>: the value of the
      end side \<open>e\<close> afterwards, given that of the start side \<open>s\<close>\<close>
  "preferLonger e s =
     (if \<not> truthy e \<and> truthy s then s
      else if truthy e \<and> truthy s \<and> length (the s) > length (the e) then s
      else e)"

definition fillMissing :: "string option \<Rightarrow> string option \<Rightarrow> string option" where
  \<comment> \<open>\<^verbatim>\<open>if (!endExtraction[field] && startExtraction[field]) endExtraction[field] = startExtraction[field]\<close>\<close>
  "fillMissing e s = (if \<not> truthy e \<and> truthy s then s else e)"

definition fillMissingS :: "scalar option \<Rightarrow> scalar option \<Rightarrow> scalar option" where
  "fillMissingS e s = (if \<not> truthyS e \<and> truthyS s then s else e)"

definition mergeExtractions :: "extraction \<Rightarrow> extraction \<Rightarrow> extraction" where
  \<comment> \<open>The source updates the end extraction in place, one property after the other, and
      returns it.  Every assignment reads only the property it writes, so each new value is
      given from the end extraction as it was passed in; a conditional assignment
      \<^verbatim>\<open>if (c) x.f = v\<close> is the update of \<open>f\<close> to \<open>if c then v else f x\<close>.\<close>
  "mergeExtractions master slave =
     (let endExtraction = (if position master = Some ''end'' then master else slave);
          startExtraction = (if position master = Some ''end'' then slave else master)
      in endExtraction
          \<lparr>ext_complete := Some True,
           reason := None,
           position := None,
           raw_text :=
             (if truthy (raw_text endExtraction) \<and> truthy (raw_text startExtraction) then
                Some (the (raw_text endExtraction) @ [CHR 0x0A] @ the (raw_text startExtraction))
              else if \<not> truthy (raw_text endExtraction) \<and> truthy (raw_text startExtraction) then
                raw_text startExtraction
              else raw_text endExtraction),
           title := preferLonger (title endExtraction) (title startExtraction),
           container_title :=
             preferLonger (container_title endExtraction) (container_title startExtraction),
           query_bibliographic :=
             preferLonger (query_bibliographic endExtraction) (query_bibliographic startExtraction),
           doi := fillMissing (doi endExtraction) (doi startExtraction),
           pmid := fillMissingS (pmid endExtraction) (pmid startExtraction),
           isbn := fillMissing (isbn endExtraction) (isbn startExtraction),
           year := fillMissingS (year endExtraction) (year startExtraction),
           volume := fillMissingS (volume endExtraction) (volume startExtraction),
           issue := fillMissingS (issue endExtraction) (issue startExtraction),
           pages := fillMissingS (pages endExtraction) (pages startExtraction),
           authors :=
             (if authorsLength (authors startExtraction) > authorsLength (authors endExtraction)
              then authors startExtraction else authors endExtraction),
           authors_truncated :=
             (if authors_truncated endExtraction = Some True \<or>
                 authors_truncated startExtraction = Some True
              then Some True else authors_truncated endExtraction)\<rparr>)"

definition scenarioB_end :: extraction where
  "scenarioB_end =
     emptyExtraction\<lparr>ext_complete := Some False, position := Some ''end'', doi := Some ''10.1/x'',
                      raw_text := Some ''Smith J. Intro to''\<rparr>"

definition scenarioB_start :: extraction where
  "scenarioB_start =
     emptyExtraction\<lparr>ext_complete := Some False, position := Some ''start'', doi := Some ''10.1/x'',
                      raw_text := Some ''Foo. Nature 2020''\<rparr>"

definition partialEnd :: extraction where
  "partialEnd =
     emptyExtraction\<lparr>ext_complete := Some False, position := Some ''end'',
                      reason := Some ''cut at window end'', title := Some ''Intro to'',
                      year := Some (Num 2020), raw_text := Some ''Smith J. Intro to''\<rparr>"

definition partialStart :: extraction where
  "partialStart =
     emptyExtraction\<lparr>ext_complete := Some False, position := Some ''start'',
                      reason := Some ''cut at window start'', doi := Some ''10.1/x'',
                      year := Some (Num 2021), volume := Some (Str ''12''),
                      raw_text := Some ''Foo. Nature 2020''\<rparr>"

section \<open>Citation validation (services/validation.js)\<close>

definition FIELD_WEIGHTS :: "string \<Rightarrow> double" where
  \<comment> \<open>\<^verbatim>\<open>FIELD_WEIGHTS[name]\<close> for the names that the code looks up\<close>
  "FIELD_WEIGHTS name =
     (if name = ''title'' then 10
      else if name = ''authors'' then 8
      else if name = ''year'' then 6
      else if name = ''journal'' then 1 / 2
      else if name = ''volume'' then roundDouble (2 / 10)
      else if name = ''pages'' then roundDouble (2 / 10)
      else if name = ''doi'' then 1
      else 0)"

definition THRESHOLDS_valid :: double where
  "THRESHOLDS_valid = roundDouble (90 / 100)"

definition THRESHOLDS_suspicious :: double where
  "THRESHOLDS_suspicious = roundDouble (70 / 100)"

definition orEmpty :: "string option \<Rightarrow> string" where
  \<comment> \<open>\<^verbatim>\<open>x || ''\<close>\<close>
  "orEmpty v = (if truthy v then the v else [])"

definition orElse :: "string option \<Rightarrow> string option \<Rightarrow> string option" where
  \<comment> \<open>\<^verbatim>\<open>x || y\<close>\<close>
  "orElse v w = (if truthy v then v else w)"

definition orElseS :: "scalar option \<Rightarrow> scalar option \<Rightarrow> scalar option" where
  "orElseS v w = (if truthyS v then v else w)"

definition orEmptyS :: "scalar option \<Rightarrow> scalar" where
  "orEmptyS v = (if truthyS v then the v else Str [])"

definition truthyN :: "int option \<Rightarrow> bool" where
  \<comment> \<open>a number that is neither \<^verbatim>\<open>null\<close>, \<^verbatim>\<open>NaN\<close> nor 0\<close>
  "truthyN v = (case v of None \<Rightarrow> False | Some n \<Rightarrow> n \<noteq> 0)"

definition firstDatePart :: "date_obj option \<Rightarrow> int option" where
  \<comment> \<open>\<^verbatim>\<open>d?.['date-parts']?.[0]?.[0]\<close>\<close>
  "firstDatePart d =
     (case d of
        None \<Rightarrow> None
      | Some obj \<Rightarrow> (case date_parts obj of Some ((y # _) # _) \<Rightarrow> Some y | _ \<Rightarrow> None))"

definition normalizeCrossRef :: "crossref_work option \<Rightarrow> normalized option" where
  "normalizeCrossRef result =
     (case result of
        None \<Rightarrow> None
      | Some r \<Rightarrow>
          Some \<lparr>n_title = (case cr_title r of Some (t # _) \<Rightarrow> t | _ \<Rightarrow> []),
                n_authors =
                  map (\<lambda>a. \<lparr>n_family = orEmpty (family a), n_given = orEmpty (given a)\<rparr>)
                      (case cr_author r of None \<Rightarrow> [] | Some as \<Rightarrow> as),
                n_year =
                  (if truthyN (firstDatePart (cr_published_print r))
                   then firstDatePart (cr_published_print r)
                   else if truthyN (firstDatePart (cr_issued r)) then firstDatePart (cr_issued r)
                   else None),
                n_journal = (case cr_container_title r of Some (t # _) \<Rightarrow> t | _ \<Rightarrow> []),
                n_volume = Str (orEmpty (cr_volume r)),
                n_pages = Str (orEmpty (cr_page r)),
                n_doi = orEmpty (cr_DOI r)\<rparr>)"

definition displayName :: "oa_authorship \<Rightarrow> string option" where
  \<comment> \<open>\<^verbatim>\<open>a.author?.display_name\<close>\<close>
  "displayName a = (case oa_author a of None \<Rightarrow> None | Some p \<Rightarrow> display_name p)"

definition normalizeOpenAlex :: "openalex_work option \<Rightarrow> normalized option" where
  "normalizeOpenAlex result =
     (case result of
        None \<Rightarrow> None
      | Some r \<Rightarrow>
          let firstPage = orEmpty (case oa_biblio r of None \<Rightarrow> None | Some b \<Rightarrow> first_page b);
              lastPage = orEmpty (case oa_biblio r of None \<Rightarrow> None | Some b \<Rightarrow> last_page b);
              pages = (if firstPage \<noteq> [] \<and> lastPage \<noteq> [] then firstPage @ ''-'' @ lastPage
                       else firstPage)
          in Some \<lparr>n_title = orEmpty (oa_title r),
                   n_authors =
                     map (\<lambda>a. \<lparr>n_family =
                                   orEmpty (map_option (\<lambda>d. last (splitChar CHR '' '' d)) (displayName a)),
                                 n_given =
                                   orEmpty (map_option (\<lambda>d. join '' '' (butlast (splitChar CHR '' '' d)))
                                              (displayName a))\<rparr>)
                         (case oa_authorships r of None \<Rightarrow> [] | Some as \<Rightarrow> as),
                   n_year = (if truthyN (oa_publication_year r) then oa_publication_year r else None),
                   n_journal =
                     orEmpty (case oa_primary_location r of
                                None \<Rightarrow> None
                              | Some l \<Rightarrow> (case loc_source l of None \<Rightarrow> None
                                           | Some s \<Rightarrow> src_display_name s)),
                   n_volume = Str (orEmpty (case oa_biblio r of None \<Rightarrow> None | Some b \<Rightarrow> b_volume b)),
                   n_pages = Str pages,
                   n_doi = orEmpty (map_option (\<lambda>d. replaceFirst d ''https://doi.org/'' []) (oa_doi r))\<rparr>)"

definition nameParts :: "string \<Rightarrow> norm_author" where
  \<comment> \<open>\<^verbatim>\<open>parts = a.split(/,\s*/)\<close>, then \<^verbatim>\<open>{ family: parts[0] || '', given: parts[1] || '' }\<close>\<close>
  "nameParts a =
     (let parts = splitSepWs CHR '','' a
      in \<lparr>n_family = (case parts of [] \<Rightarrow> [] | p0 # _ \<Rightarrow> p0),
          n_given = (case parts of _ # p1 # _ \<Rightarrow> p1 | _ \<Rightarrow> [])\<rparr>)"

fun normalizeAuthorItem :: "author_item \<Rightarrow> norm_author" where
  "normalizeAuthorItem (AuthorStr a) = nameParts a"
| "normalizeAuthorItem (AuthorObj a) =
     \<lparr>n_family = orEmpty (orElse (family a) (lastName a)),
      n_given = orEmpty (orElse (given a) (firstName a))\<rparr>"

definition normalizeExtracted :: "extraction \<Rightarrow> normalized" where
  "normalizeExtracted citation =
     \<lparr>n_title = orEmpty (title citation),
      n_authors =
        (case authors citation of
           Some (AuthorsArr as) \<Rightarrow> map normalizeAuthorItem as
         | Some (AuthorsStr s) \<Rightarrow> map nameParts (splitSepWs CHR '';'' s)
         | None \<Rightarrow> []),
      n_year = (if truthyS (year citation) then parseInt (the (year citation)) else None),
      n_journal = orEmpty (orElse (container_title citation) (journal citation)),
      n_volume = orEmptyS (volume citation),
      n_pages = orEmptyS (orElseS (pages citation) (page citation)),
      n_doi = orEmpty (doi citation)\<rparr>"

definition compareAuthors :: "norm_author list \<Rightarrow> norm_author list \<Rightarrow> double" where
  "compareAuthors extracted validated =
     (if length extracted = 0 \<or> length validated = 0 then 0
      else
        let ext1 = toLowerCase (n_family (hd extracted));
            val1 = toLowerCase (n_family (hd validated))
        in if ext1 = [] \<or> val1 = [] then 0
           else
             let firstAuthorSim = stringSimilarity ext1 val1
             in if length extracted > 1 \<and> length validated > 1 then
                  (let extLast = toLowerCase (n_family (last extracted));
                       valLast = toLowerCase (n_family (last validated));
                       lastAuthorSim = stringSimilarity extLast valLast
                   in fadd (fmul firstAuthorSim (roundDouble (7 / 10)))
                           (fmul lastAuthorSim (roundDouble (3 / 10))))
                else firstAuthorSim)"

function findPageRange :: "string \<Rightarrow> (string \<times> string) option" where
  \<comment> \<open>the first match of \<^verbatim>\<open>/(\d+)[-\u2013](\d+)/\<close> in the string, as its two groups; below U+0100
      the only dash of the character class is the hyphen\<close>
  "findPageRange s =
     (case dropWhile (\<lambda>c. \<not> isDigit c) s of
        [] \<Rightarrow> None
      | d # ds \<Rightarrow>
          (case dropWhile isDigit ds of
             [] \<Rightarrow> None
           | c # rest \<Rightarrow>
               if c = CHR ''-'' \<and> rest \<noteq> [] \<and> isDigit (hd rest)
               then Some (d # takeWhile isDigit ds, takeWhile isDigit rest)
               else findPageRange (c # rest)))"
  by pat_completeness auto
termination
proof (relation "measure length", goal_cases)
  case 1
  show ?case by simp
next
  case (2 s d ds c rest)
  have "length (c # rest) \<le> length ds" using 2(2) length_dropWhile_le[of isDigit ds] by simp
  also have "length ds < length (dropWhile (\<lambda>c. \<not> isDigit c) s)" using 2(1) by simp
  also have "\<dots> \<le> length s" by (rule length_dropWhile_le)
  finally show ?case by simp
qed

declare findPageRange.simps [simp del]

definition normalizePages :: "scalar \<Rightarrow> string" where
  \<comment> \<open>the local function \<^verbatim>\<open>normalize\<close> of \<^verbatim>\<open>comparePages\<close>\<close>
  "normalizePages p =
     (case findPageRange (String p) of
        Some (g1, g2) \<Rightarrow>
          let start = natOfDigits g1;
              end0 = natOfDigits g2;
              end1 = (if end0 < start then
                        natOfDigits (take (length (digitsOfNat start) - length (digitsOfNat end0))
                                          (digitsOfNat start) @ digitsOfNat end0)
                      else end0)
          in digitsOfNat start @ ''-'' @ digitsOfNat end1
      | None \<Rightarrow> trim (String p))"

definition comparePages :: "scalar \<Rightarrow> scalar \<Rightarrow> double" where
  "comparePages pages1 pages2 =
     (if \<not> truthyScalar pages1 \<or> \<not> truthyScalar pages2 then 0
      else if normalizePages pages1 = normalizePages pages2 then 1 else 0)"

text \<open>
  The three accumulators of \<^verbatim>\<open>computeMatchScore\<close>, and one of its six blocks
  \<^verbatim>\<open>if (both present) { fieldScores.f = s; weightedSum += s * w; totalWeight += w; }\<close>.
\<close>

record score_acc =
  acc_fieldScores :: "(string \<times> double) list"
  acc_totalWeight :: double
  acc_weightedSum :: double

definition scoreField :: "score_acc \<Rightarrow> bool \<times> string \<times> double \<Rightarrow> score_acc" where
  "scoreField acc block =
     (case block of (present, name, s) \<Rightarrow>
        if present then
          \<lparr>acc_fieldScores = acc_fieldScores acc @ [(name, s)],
           acc_totalWeight = fadd (acc_totalWeight acc) (FIELD_WEIGHTS name),
           acc_weightedSum = fadd (acc_weightedSum acc) (fmul s (FIELD_WEIGHTS name))\<rparr>
        else acc)"

definition fieldBlocks :: "normalized \<Rightarrow> normalized \<Rightarrow> (bool \<times> string \<times> double) list" where
  \<comment> \<open>the six blocks in the order of the source: the test, the field, its score\<close>
  "fieldBlocks extNorm valNorm =
     [(n_title extNorm \<noteq> [] \<and> n_title valNorm \<noteq> [], ''title'',
         stringSimilarity (toLowerCase (n_title extNorm)) (toLowerCase (n_title valNorm))),
      (length (n_authors extNorm) \<noteq> 0 \<and> length (n_authors valNorm) \<noteq> 0, ''authors'',
         compareAuthors (n_authors extNorm) (n_authors valNorm)),
      (truthyN (n_year extNorm) \<and> truthyN (n_year valNorm), ''year'',
         (if n_year extNorm = n_year valNorm then 1 else 0)),
      (n_journal extNorm \<noteq> [] \<and> n_journal valNorm \<noteq> [], ''journal'',
         stringSimilarity (toLowerCase (n_journal extNorm)) (toLowerCase (n_journal valNorm))),
      (truthyScalar (n_volume extNorm) \<and> truthyScalar (n_volume valNorm), ''volume'',
         (if String (n_volume extNorm) = String (n_volume valNorm) then 1 else 0)),
      (truthyScalar (n_pages extNorm) \<and> truthyScalar (n_pages valNorm), ''pages'',
         comparePages (n_pages extNorm) (n_pages valNorm))]"

definition computeMatchScore :: "extraction \<Rightarrow> normalized \<Rightarrow> match_score" where
  "computeMatchScore extracted validated =
     (let extNorm = normalizeExtracted extracted;
          valNorm = validated;
          acc = foldl scoreField
                  \<lparr>acc_fieldScores = [], acc_totalWeight = 0, acc_weightedSum = 0\<rparr>
                  (fieldBlocks extNorm valNorm);
          overallScore = (if acc_totalWeight acc > 0
                          then fdiv (acc_weightedSum acc) (acc_totalWeight acc) else 0)
      in \<lparr>overall = overallScore, fieldScores = acc_fieldScores acc,
          fieldsCompared = length (acc_fieldScores acc)\<rparr>)"

definition roundPercent :: "double \<Rightarrow> string" where
  \<comment> \<open>\<^verbatim>\<open>Math.round(x * 100)\<close> in a template string: the product is a double, and
      \<^verbatim>\<open>Math.round\<close> gives the whole number nearest to it, the upper one of two\<close>
  "roundPercent x = stringOfInt \<lfloor>fmul x 100 + 1 / 2\<rfloor>"

definition getValidationStatus :: "match_score \<Rightarrow> string \<Rightarrow> status \<times> string" where
  "getValidationStatus ms lookupMethod =
     (if overall ms \<ge> THRESHOLDS_valid then
        (Valid, lookupMethod @ '' ('' @ roundPercent (overall ms) @ ''% match)'')
      else if overall ms \<ge> THRESHOLDS_suspicious then
        (Suspicious,
         lookupMethod @ '' - possible mismatch ('' @ roundPercent (overall ms) @ ''% match)'')
      else
        (Mismatch,
         lookupMethod @ '' - content mismatch ('' @ roundPercent (overall ms) @ ''% match)''))"

definition buildBibliographicQuery :: "extraction \<Rightarrow> string" where
  "buildBibliographicQuery citation =
     join '' ''
       ((case authors citation of
           Some (AuthorsArr (AuthorObj a # _)) \<Rightarrow> (if truthy (family a) then [the (family a)] else [])
         | _ \<Rightarrow> []) @
        (if truthyS (year citation) then [String (the (year citation))] else []) @
        (if truthy (title citation)
         then [join '' '' (take 5 (splitWs (the (title citation))))] else []) @
        (if truthy (container_title citation) then [the (container_title citation)] else []))"

fun findBestMatch_loop ::
  "extraction \<Rightarrow> crossref_work list \<Rightarrow> (crossref_work \<times> match_score) option \<Rightarrow>
   (crossref_work \<times> match_score) option"
where
  \<comment> \<open>the pair is (\<^verbatim>\<open>bestMatch\<close>, \<^verbatim>\<open>bestScore\<close>); an element that does not normalise would
      raise in \<^verbatim>\<open>computeMatchScore\<close>, which cannot happen for a work that is present\<close>
  "findBestMatch_loop citation [] best = best"
| "findBestMatch_loop citation (result # results) best =
     (case normalizeCrossRef (Some result) of
        None \<Rightarrow> findBestMatch_loop citation results best
      | Some normalized \<Rightarrow>
          let matchScore = computeMatchScore citation normalized
          in findBestMatch_loop citation results
               (case best of
                  None \<Rightarrow> Some (result, matchScore)
                | Some (bestMatch, bestScore) \<Rightarrow>
                    if overall matchScore > overall bestScore then Some (result, matchScore)
                    else Some (bestMatch, bestScore)))"

definition findBestMatch :: "extraction \<Rightarrow> crossref_work list \<Rightarrow> (crossref_work \<times> match_score) option" where
  "findBestMatch citation results = findBestMatch_loop citation results None"

text \<open>
  The external lookups are opaque: each call either throws (\<^const>\<open>Inl\<close>) or returns.  A
  lookup by identifier returns \<^verbatim>\<open>null\<close> (\<^const>\<open>None\<close>) when the work is not found.
\<close>

datatype exn = Exn string

record services =
  crossref_lookupDOI :: "string \<Rightarrow> string \<Rightarrow> exn + crossref_work option"
  openalex_lookupDOI :: "string \<Rightarrow> string \<Rightarrow> exn + openalex_work option"
  openalex_lookupPMID :: "scalar \<Rightarrow> string \<Rightarrow> exn + openalex_work option"
  crossref_searchBibliographic :: "string \<Rightarrow> string \<Rightarrow> exn + crossref_work list"

text \<open>
  How a block of \<^verbatim>\<open>validateCitation\<close> ends: with \<^verbatim>\<open>return\<close>, giving the citation as
  written so far, or by falling through to the next step.
\<close>

datatype flow = Return extraction | Next

definition catchNull :: "exn + 'a option \<Rightarrow> 'a option" where
  \<comment> \<open>\<^verbatim>\<open>promise.catch(() => null)\<close>\<close>
  "catchNull r = (case r of Inl e \<Rightarrow> None | Inr v \<Rightarrow> v)"

definition tryCatch :: "exn + flow \<Rightarrow> exn + flow" where
  \<comment> \<open>\<^verbatim>\<open>try { ... } catch (e) { }\<close>: an exception of the block is dropped and control falls
      through.  In each block the calls that can throw come before every write to the
      citation, so falling through continues from the citation as it was before the block.\<close>
  "tryCatch r = (case r of Inl e \<Rightarrow> Inr Next | Inr f \<Rightarrow> Inr f)"

definition emptyValidation :: validation_bag where
  "emptyValidation = \<lparr>crossref = None, openalex = None, matchScore = None\<rparr>"

definition setVerdict ::
  "extraction \<Rightarrow> validation_bag \<Rightarrow> match_score \<Rightarrow> string \<Rightarrow> extraction" where
  \<comment> \<open>the writes shared by the four successful paths: the validation object, then
      \<^verbatim>\<open>validationStatus\<close> and \<^verbatim>\<open>validationMessage\<close> from \<^verbatim>\<open>getValidationStatus\<close>\<close>
  "setVerdict citation bag ms lookupMethod =
     citation\<lparr>validation := Some (bag\<lparr>matchScore := Some ms\<rparr>),
              validationStatus := Some (fst (getValidationStatus ms lookupMethod)),
              validationMessage := Some (snd (getValidationStatus ms lookupMethod))\<rparr>"

definition validateCitation_doi :: "services \<Rightarrow> extraction \<Rightarrow> string \<Rightarrow> exn + flow" where
  \<comment> \<open>Step 1, the body of the \<^verbatim>\<open>try\<close>\<close>
  "validateCitation_doi env citation userEmail =
     (let crossRefResult = catchNull (crossref_lookupDOI env (the (doi citation)) userEmail);
          openAlexResult = catchNull (openalex_lookupDOI env (the (doi citation)) userEmail)
      in case crossRefResult of
           Some cr \<Rightarrow>
             (case normalizeCrossRef (Some cr) of
                None \<Rightarrow> Inl (Exn ''TypeError'')
              | Some normalized \<Rightarrow>
                  Inr (Return (setVerdict citation
                                 \<lparr>crossref = Some cr, openalex = openAlexResult, matchScore = None\<rparr>
                                 (computeMatchScore citation normalized)
                                 ''DOI verified via CrossRef'')))
         | None \<Rightarrow>
             (case openAlexResult of
                Some oa \<Rightarrow>
                  (case normalizeOpenAlex (Some oa) of
                     None \<Rightarrow> Inl (Exn ''TypeError'')
                   | Some normalized \<Rightarrow>
                       Inr (Return (setVerdict citation
                                      \<lparr>crossref = None, openalex = Some oa, matchScore = None\<rparr>
                                      (computeMatchScore citation normalized)
                                      ''DOI verified via OpenAlex'')))
              | None \<Rightarrow> Inr Next))"

definition validateCitation_pmid :: "services \<Rightarrow> extraction \<Rightarrow> string \<Rightarrow> exn + flow" where
  \<comment> \<open>Step 2, the body of the \<^verbatim>\<open>try\<close>\<close>
  "validateCitation_pmid env citation userEmail =
     (case openalex_lookupPMID env (the (pmid citation)) userEmail of
        Inl e \<Rightarrow> Inl e
      | Inr None \<Rightarrow> Inr Next
      | Inr (Some oa) \<Rightarrow>
          (case normalizeOpenAlex (Some oa) of
             None \<Rightarrow> Inl (Exn ''TypeError'')
           | Some normalized \<Rightarrow>
               Inr (Return (setVerdict citation
                              \<lparr>crossref = None, openalex = Some oa, matchScore = None\<rparr>
                              (computeMatchScore citation normalized)
                              ''PMID verified via OpenAlex''))))"

definition validateCitation_search :: "services \<Rightarrow> extraction \<Rightarrow> string \<Rightarrow> exn + flow" where
  \<comment> \<open>Step 3, the body of the \<^verbatim>\<open>try\<close>\<close>
  "validateCitation_search env citation userEmail =
     (let query = (if truthy (query_bibliographic citation) then the (query_bibliographic citation)
                   else buildBibliographicQuery citation)
      in case crossref_searchBibliographic env query userEmail of
           Inl e \<Rightarrow> Inl e
         | Inr crossRefResults \<Rightarrow>
             if length crossRefResults > 0 then
               (case findBestMatch citation crossRefResults of
                  Some (result, score) \<Rightarrow>
                    Inr (Return (setVerdict citation
                                   \<lparr>crossref = Some result, openalex = None, matchScore = None\<rparr>
                                   score ''Matched via bibliographic search''))
                | None \<Rightarrow> Inr Next)
             else Inr Next)"

definition validateCitation :: "services \<Rightarrow> extraction \<Rightarrow> string \<Rightarrow> exn + extraction" where
  \<comment> \<open>\<^const>\<open>Inl\<close>: the call throws; \<^const>\<open>Inr\<close>: it returns, with the citation as updated\<close>
  "validateCitation env citation0 userEmail =
     (let citation = citation0\<lparr>validation := Some emptyValidation\<rparr>
      in case (if truthy (doi citation) then tryCatch (validateCitation_doi env citation userEmail)
               else Inr Next) of
           Inl e \<Rightarrow> Inl e
         | Inr (Return c) \<Rightarrow> Inr c
         | Inr Next \<Rightarrow>
             (case (if truthyS (pmid citation)
                    then tryCatch (validateCitation_pmid env citation userEmail) else Inr Next) of
                Inl e \<Rightarrow> Inl e
              | Inr (Return c) \<Rightarrow> Inr c
              | Inr Next \<Rightarrow>
                  (case (if truthy (query_bibliographic citation) \<or> truthy (raw_text citation)
                         then tryCatch (validateCitation_search env citation userEmail)
                         else Inr Next) of
                     Inl e \<Rightarrow> Inl e
                   | Inr (Return c) \<Rightarrow> Inr c
                   | Inr Next \<Rightarrow>
                       Inr (citation\<lparr>validationStatus := Some Invalid,
                                     validationMessage := Some ''Could not verify citation''\<rparr>))))"

section \<open>Auxiliary definitions for the properties of validation\<close>

text \<open>
  The sum of the weights and the weighted sum of the scores of a list of compared fields
  with their scores, added up from the left in double arithmetic, starting from \<open>a\<close>.
\<close>

fun totalWeightFrom :: "double \<Rightarrow> (string \<times> double) list \<Rightarrow> double" where
  "totalWeightFrom a [] = a"
| "totalWeightFrom a ((f, s) # fs) = totalWeightFrom (fadd a (FIELD_WEIGHTS f)) fs"

fun weightedSumFrom :: "double \<Rightarrow> (string \<times> double) list \<Rightarrow> double" where
  "weightedSumFrom a [] = a"
| "weightedSumFrom a ((f, s) # fs) = weightedSumFrom (fadd a (fmul s (FIELD_WEIGHTS f))) fs"

definition halfUlp :: rat where
  \<comment> \<open>half the distance between neighbouring doubles from 16 up to 32\<close>
  "halfUlp = 1 / 2 ^ 49"

definition totalWeight :: "(string \<times> double) list \<Rightarrow> double" where
  "totalWeight fs = totalWeightFrom 0 fs"

definition weightedSum :: "(string \<times> double) list \<Rightarrow> double" where
  "weightedSum fs = weightedSumFrom 0 fs"

text \<open>
  The six compared fields by name: whether a normalised record has a value for the field
  (the test of the field's block, for one side), and the score of the field's block.
\<close>

definition fieldPresent :: "string \<Rightarrow> normalized \<Rightarrow> bool" where
  "fieldPresent f x =
     (if f = ''title'' then n_title x \<noteq> []
      else if f = ''authors'' then length (n_authors x) \<noteq> 0
      else if f = ''year'' then truthyN (n_year x)
      else if f = ''journal'' then n_journal x \<noteq> []
      else if f = ''volume'' then truthyScalar (n_volume x)
      else if f = ''pages'' then truthyScalar (n_pages x)
      else False)"

definition fieldScore :: "string \<Rightarrow> normalized \<Rightarrow> normalized \<Rightarrow> double" where
  "fieldScore f x v =
     (if f = ''title'' then stringSimilarity (toLowerCase (n_title x)) (toLowerCase (n_title v))
      else if f = ''authors'' then compareAuthors (n_authors x) (n_authors v)
      else if f = ''year'' then (if n_year x = n_year v then 1 else 0)
      else if f = ''journal'' then
        stringSimilarity (toLowerCase (n_journal x)) (toLowerCase (n_journal v))
      else if f = ''volume'' then (if String (n_volume x) = String (n_volume v) then 1 else 0)
      else if f = ''pages'' then comparePages (n_pages x) (n_pages v)
      else 0)"

definition comparedScores :: "string list \<Rightarrow> normalized \<Rightarrow> normalized \<Rightarrow> (string \<times> double) list" where
  \<comment> \<open>those of the given fields that both records have a value for, each with its score\<close>
  "comparedScores names x v =
     map (\<lambda>n. (n, fieldScore n x v)) (filter (\<lambda>n. fieldPresent n x \<and> fieldPresent n v) names)"

text \<open>
  Two normalised records carry matching values for a field: the same title or journal up
  to case, the same year, the same volume as strings, the same pages after the
  normalisation of page ranges; for authors, the same non-empty family name of the first
  author up to case and, when both lists have several entries, also of the last author.
\<close>

definition fieldMatches :: "string \<Rightarrow> normalized \<Rightarrow> normalized \<Rightarrow> bool" where
  "fieldMatches f x v =
     (if f = ''title'' then toLowerCase (n_title x) = toLowerCase (n_title v)
      else if f = ''authors'' then
        n_authors x \<noteq> [] \<and> n_authors v \<noteq> [] \<and>
        n_family (hd (n_authors x)) \<noteq> [] \<and>
        toLowerCase (n_family (hd (n_authors x))) = toLowerCase (n_family (hd (n_authors v))) \<and>
        (length (n_authors x) \<le> 1 \<or> length (n_authors v) \<le> 1 \<or>
         n_family (last (n_authors x)) \<noteq> [] \<and>
         toLowerCase (n_family (last (n_authors x))) = toLowerCase (n_family (last (n_authors v))))
      else if f = ''year'' then n_year x = n_year v
      else if f = ''journal'' then toLowerCase (n_journal x) = toLowerCase (n_journal v)
      else if f = ''volume'' then String (n_volume x) = String (n_volume v)
      else if f = ''pages'' then normalizePages (n_pages x) = normalizePages (n_pages v)
      else False)"

definition agreeExcept :: "string \<Rightarrow> normalized \<Rightarrow> normalized \<Rightarrow> bool" where
  \<comment> \<open>the two records have the same value for every compared field other than \<open>f\<close>\<close>
  "agreeExcept f x y =
     ((f = ''title'' \<or> n_title x = n_title y) \<and>
      (f = ''authors'' \<or> n_authors x = n_authors y) \<and>
      (f = ''year'' \<or> n_year x = n_year y) \<and>
      (f = ''journal'' \<or> n_journal x = n_journal y) \<and>
      (f = ''volume'' \<or> n_volume x = n_volume y) \<and>
      (f = ''pages'' \<or> n_pages x = n_pages y))"

definition withinStringLimit :: "normalized \<Rightarrow> bool" where
  \<comment> \<open>the strings that are compared by words are shorter than \<open>2^31\<close> code units, which no
      JavaScript engine exceeds\<close>
  "withinStringLimit x =
     (length (n_title x) < 2 ^ 31 \<and> length (n_journal x) < 2 ^ 31 \<and>
      list_all (\<lambda>a. length (n_family a) < 2 ^ 31) (n_authors x))"

text \<open>The six field names, the state of a citation after validation, and example records.\<close>

definition fieldNames :: "string list" where
  "fieldNames = [''title'', ''authors'', ''year'', ''journal'', ''volume'', ''pages'']"

definition citD :: extraction where
  "citD = emptyExtraction\<lparr>title := Some ''deep learning'', authors := Some (AuthorsArr [smith]),
            year := Some (Num 2020)\<rparr>"

definition citNoYear :: extraction where
  "citNoYear = emptyExtraction\<lparr>title := Some ''deep learning'', authors := Some (AuthorsArr [smith])\<rparr>"

definition recD :: normalized where
  "recD = \<lparr>n_title = ''deep learning methods'', n_authors = [\<lparr>n_family = ''smith'', n_given = ''j''\<rparr>],
           n_year = Some 2020, n_journal = ''nature'', n_volume = Str [], n_pages = Str [],
           n_doi = []\<rparr>"

definition vanBerg :: author_item where
  "vanBerg = AuthorObj \<lparr>family = Some ''van Berg'', given = None, lastName = None, firstName = None\<rparr>"

definition citTwoAuthors :: extraction where
  "citTwoAuthors =
     emptyExtraction\<lparr>title := Some ''deep learning'', authors := Some (AuthorsArr [smith, vanBerg])\<rparr>"

definition recTwoAuthors :: normalized where
  \<comment> \<open>the same title and first author; the family names of the last authors share one word
      of four\<close>
  "recTwoAuthors =
     \<lparr>n_title = ''Deep Learning'',
      n_authors = [\<lparr>n_family = ''Smith'', n_given = ''J''\<rparr>,
                   \<lparr>n_family = ''van der Meer'', n_given = ''K''\<rparr>],
      n_year = Some 2020, n_journal = [], n_volume = Str [], n_pages = Str [], n_doi = []\<rparr>"

definition citTitleYear :: extraction where
  "citTitleYear = emptyExtraction\<lparr>title := Some ''deep learning'', year := Some (Num 2020)\<rparr>"

definition citNoFamily :: extraction where
  \<comment> \<open>\<open>citTitleYear\<close> extended by an author entry that has a given name only\<close>
  "citNoFamily =
     citTitleYear\<lparr>authors :=
       Some (AuthorsArr [AuthorObj \<lparr>family = None, given = Some ''j'', lastName = None,
                                      firstName = None\<rparr>])\<rparr>"

definition recNoFamily :: normalized where
  \<comment> \<open>a record whose only author has no family name, as for an institutional author\<close>
  "recNoFamily =
     \<lparr>n_title = ''deep learning'', n_authors = [\<lparr>n_family = [], n_given = ''j''\<rparr>],
      n_year = Some 2020, n_journal = [], n_volume = Str [], n_pages = Str [], n_doi = []\<rparr>"

definition verdictSet :: "extraction \<Rightarrow> bool" where
  "verdictSet c =
     (validationStatus c \<in> {Some Valid, Some Suspicious, Some Mismatch, Some Invalid} \<and>
      validation c \<noteq> None)"

definition servicesDown :: services where
  \<comment> \<open>every external lookup fails\<close>
  "servicesDown =
     \<lparr>crossref_lookupDOI = (\<lambda>d u. Inl (Exn ''CrossRef error: 503'')),
      openalex_lookupDOI = (\<lambda>d u. Inl (Exn ''OpenAlex error: 503'')),
      openalex_lookupPMID = (\<lambda>p u. Inl (Exn ''OpenAlex error: 503'')),
      crossref_searchBibliographic = (\<lambda>q u. Inl (Exn ''CrossRef search error: 503''))\<rparr>"

definition citFull :: extraction where
  "citFull = emptyExtraction\<lparr>doi := Some ''10.1/x'', pmid := Some (Num 12345),
               raw_text := Some ''Smith J. Intro to Foo. Nature 2020''\<rparr>"

section \<open>The rate limiter (utils/rate-limiter.js)\<close>

text \<open>
  The limiter runs on one thread; its steps are the synchronous parts of its methods, each
  at a reading \<open>now\<close> of \<^verbatim>\<open>Date.now()\<close> in milliseconds, taken as constant within a step.
  A limit is \<^const>\<open>None\<close> for \<^verbatim>\<open>Infinity\<close>.  Two fields record what the source does to the
  outside: \<open>started\<close>, the tasks whose execution has begun (the calls \<^verbatim>\<open>task()\<close>), in
  order, and \<open>timers\<close>, the times for which a \<^verbatim>\<open>setTimeout\<close> has been armed.
\<close>

record 't rate_limiter =
  maxConcurrent :: "int option"
  requestsPerMinute :: "int option"
  activeRequests :: int
  requestTimestamps :: "int list"
  queue :: "'t list"
  started :: "'t list"
  timers :: "int list"

definition orInfinity :: "int option \<Rightarrow> int option" where
  \<comment> \<open>\<^verbatim>\<open>options.x || Infinity\<close>: an absent limit and the limit 0 are unbounded\<close>
  "orInfinity v = (case v of None \<Rightarrow> None | Some n \<Rightarrow> if n = 0 then None else Some n)"

definition RateLimiter :: "int option \<Rightarrow> int option \<Rightarrow> 't rate_limiter" where
  \<comment> \<open>the constructor, from \<^verbatim>\<open>options.maxConcurrent\<close> and \<^verbatim>\<open>options.requestsPerMinute\<close>\<close>
  "RateLimiter optMaxConcurrent optRequestsPerMinute =
     \<lparr>maxConcurrent = orInfinity optMaxConcurrent,
      requestsPerMinute = orInfinity optRequestsPerMinute,
      activeRequests = 0, requestTimestamps = [], queue = [], started = [], timers = []\<rparr>"

definition belowLimit :: "int \<Rightarrow> int option \<Rightarrow> bool" where
  \<comment> \<open>\<^verbatim>\<open>n < limit\<close>\<close>
  "belowLimit n limit = (case limit of None \<Rightarrow> True | Some m \<Rightarrow> n < m)"

definition inWindow :: "int \<Rightarrow> int list \<Rightarrow> int list" where
  \<comment> \<open>the timestamps that \<^verbatim>\<open>_cleanTimestamps\<close> keeps\<close>
  "inWindow now tss = filter (\<lambda>ts. ts > now - 60000) tss"

definition cleanTimestamps :: "int \<Rightarrow> 't rate_limiter \<Rightarrow> 't rate_limiter" where
  "cleanTimestamps now l = l\<lparr>requestTimestamps := inWindow now (requestTimestamps l)\<rparr>"

definition canProceed :: "int \<Rightarrow> 't rate_limiter \<Rightarrow> bool" where
  \<comment> \<open>the value of \<^verbatim>\<open>_canProceed()\<close>; its effect on the limiter is \<^const>\<open>cleanTimestamps\<close>\<close>
  "canProceed now l =
     (let concurrencyOk = belowLimit (activeRequests l) (maxConcurrent l);
          rateOk = belowLimit (int (length (inWindow now (requestTimestamps l)))) (requestsPerMinute l)
      in concurrencyOk \<and> rateOk)"

definition getDelayMs :: "int \<Rightarrow> 't rate_limiter \<Rightarrow> int" where
  \<comment> \<open>the value of \<^verbatim>\<open>_getDelayMs()\<close>; it cleans the timestamps once more, which changes
      nothing right after \<^verbatim>\<open>_canProceed()\<close>\<close>
  "getDelayMs now l =
     (if \<not> belowLimit (int (length (inWindow now (requestTimestamps l)))) (requestsPerMinute l)
      then (case inWindow now (requestTimestamps l) of
              [] \<Rightarrow> 0
            | oldestTimestamp # _ \<Rightarrow> max 0 ((oldestTimestamp + 60000) - now + 10))
      else 0)"

definition executeTask :: "int \<Rightarrow> 't \<Rightarrow> 't rate_limiter \<Rightarrow> 't rate_limiter" where
  \<comment> \<open>\<^verbatim>\<open>_executeTask\<close> up to its \<^verbatim>\<open>await\<close>: the counters, then the call of the task\<close>
  "executeTask now task l =
     l\<lparr>activeRequests := activeRequests l + 1,
       requestTimestamps := requestTimestamps l @ [now],
       started := started l @ [task]\<rparr>"

function processQueue :: "int \<Rightarrow> 't rate_limiter \<Rightarrow> 't rate_limiter" where
  \<comment> \<open>\<^verbatim>\<open>while (this.queue.length > 0 && this._canProceed())\<close>; the test cleans the timestamps
      only when the queue is not empty\<close>
  "processQueue now l =
     (if length (queue l) > 0 then
        (if canProceed now l then
           processQueue now
             (executeTask now (hd (queue l)) ((cleanTimestamps now l)\<lparr>queue := tl (queue l)\<rparr>))
         else cleanTimestamps now l)
      else l)"
  by pat_completeness auto
termination
  by (relation "measure (\<lambda>(now, l). length (queue l))")
     (auto simp: executeTask_def cleanTimestamps_def)

declare processQueue.simps [simp del]

definition taskSettled :: "int \<Rightarrow> 't rate_limiter \<Rightarrow> 't rate_limiter" where
  \<comment> \<open>the \<^verbatim>\<open>finally\<close> block of \<^verbatim>\<open>_executeTask\<close>, when a running task has succeeded or failed\<close>
  "taskSettled now l = processQueue now (l\<lparr>activeRequests := activeRequests l - 1\<rparr>)"

definition timerFired :: "int \<Rightarrow> int \<Rightarrow> 't rate_limiter \<Rightarrow> 't rate_limiter" where
  \<comment> \<open>the callback of the timer armed for the time \<open>due\<close>\<close>
  "timerFired due now l = processQueue now (l\<lparr>timers := remove1 due (timers l)\<rparr>)"

definition schedule :: "int \<Rightarrow> 't \<Rightarrow> 't rate_limiter \<Rightarrow> 't rate_limiter" where
  \<comment> \<open>the executor of the promise that \<^verbatim>\<open>schedule(task)\<close> returns\<close>
  "schedule now task l =
     (if canProceed now l then executeTask now task (cleanTimestamps now l)
      else
        let l1 = (cleanTimestamps now l)\<lparr>queue := queue l @ [task]\<rparr>;
            delay = getDelayMs now l1
        in if delay > 0 then l1\<lparr>timers := timers l1 @ [now + delay]\<rparr> else l1)"

definition onePerMinute :: "string rate_limiter" where
  "onePerMinute = RateLimiter None (Some 1)"

definition overtaking :: "string rate_limiter" where
  \<comment> \<open>A starts at time 0 and settles after a second; B is scheduled at 2000 and has to
      wait; C is scheduled at 60005, before the timer armed for B (due at 60010) fires\<close>
  "overtaking =
     schedule 60005 ''C'' (schedule 2000 ''B'' (taskSettled 1000 (schedule 0 ''A'' onePerMinute)))"

definition bothWaiting :: "string rate_limiter" where
  \<comment> \<open>A starts at time 0 and settles after a second; B and C are scheduled at 2000 and
      3000 and have to wait, each with a timer for 60010\<close>
  "bothWaiting =
     schedule 3000 ''C'' (schedule 2000 ''B'' (taskSettled 1000 (schedule 0 ''A'' onePerMinute)))"

definition leftBehind :: "string rate_limiter" where
  \<comment> \<open>both timers fire at 60010 and start B only; B settles at 61000; D is scheduled at
      130000, when nothing has looked at the queue again\<close>
  "leftBehind =
     schedule 130000 ''D''
       (taskSettled 61000 (timerFired 60010 60010 (timerFired 60010 60010 bothWaiting)))"

definition twoWaiting :: "string rate_limiter" where
  "twoWaiting =
     \<lparr>maxConcurrent = Some 2, requestsPerMinute = None, activeRequests = 1,
      requestTimestamps = [100], queue = [''B'', ''C''], started = [''A''], timers = []\<rparr>"

section \<open>The window loop of the extraction processor (processAllWindows)\<close>

text \<open>
  \<^verbatim>\<open>processAllWindows\<close> is an \<^verbatim>\<open>async\<close> function on one thread.  Its own code runs in
  sections without suspension, one after each awaited extraction call; everything else
  happens while it waits: the user cancels, a validation that is in flight returns, a
  validation task settles, a timer of the validation limiter fires.  These are the events;
  a run is given by what the environment does: the events during each wait, in their order,
  and what each extraction call gives.

  The validation limiter holds the tasks of \<^verbatim>\<open>startValidation\<close>, each represented by its
  citation.  A task that the limiter starts runs at once up to its first \<^verbatim>\<open>await\<close>: when
  the user has cancelled it returns; an incomplete citation is marked and added to the
  state, and the task is over; for any other citation \<^verbatim>\<open>validateCitation\<close> is now in
  flight.  A task that is over settles later (the \<^verbatim>\<open>finally\<close> block of \<^verbatim>\<open>_executeTask\<close>
  runs after the \<^verbatim>\<open>await\<close> of the task's promise).
\<close>

datatype async_event =
    UserCancels  \<comment> \<open>the click on the cancel button: \<^verbatim>\<open>state.shouldCancel = true\<close>\<close>
  | ValidationReturns nat
      \<comment> \<open>\<^verbatim>\<open>validateCitation\<close> returns in the task at this position among those in flight; the
          task adds its citation to the state and is over\<close>
  | TaskSettles int
      \<comment> \<open>the \<^verbatim>\<open>finally\<close> block of a task that is over runs at this time\<close>
  | TimerFires int int
      \<comment> \<open>the callback of the limiter's timer armed for the first time runs at the second\<close>

record window_input =
  events :: "async_event list"  \<comment> \<open>what happens while the extraction call is awaited\<close>
  outcome :: "string + extraction list"
    \<comment> \<open>what the call gives: \<^const>\<open>Inl\<close> is the message of the error it throws\<close>
  clock :: int  \<comment> \<open>\<^verbatim>\<open>Date.now()\<close> in the section that follows the call\<close>

text \<open>
  The variables of the run: the extraction state, \<^verbatim>\<open>extractionIndex\<close>,
  \<^verbatim>\<open>pendingIncompleteEnd\<close>, \<^verbatim>\<open>pendingValidations\<close> (the citation of each promise pushed, in
  order), the validation limiter, the citations whose \<^verbatim>\<open>validateCitation\<close> is in flight,
  and the number of tasks that are over and have not settled yet.
\<close>

record run_state =
  state :: ext_state
  extractionIndex :: int
  pendingIncompleteEnd :: "extraction list"
  pendingValidations :: "extraction list"
  validationLimiter :: "extraction rate_limiter"
  validating :: "extraction list"
  finishing :: nat

definition createValidationRateLimiter :: "int \<Rightarrow> extraction rate_limiter" where
  "createValidationRateLimiter rpm = RateLimiter (Some 10) (Some rpm)"

definition finalizeIncomplete :: "extraction \<Rightarrow> extraction" where
  \<comment> \<open>\<^verbatim>\<open>citation.validationStatus = 'incomplete'; citation.validationMessage = citation.reason || 'Entry incomplete'\<close>\<close>
  "finalizeIncomplete citation =
     citation\<lparr>validationStatus := Some Incomplete,
              validationMessage :=
                Some (if truthy (reason citation) then the (reason citation) else ''Entry incomplete'')\<rparr>"

definition validationTask_begin :: "extraction \<Rightarrow> run_state \<Rightarrow> run_state" where
  \<comment> \<open>the task of \<^verbatim>\<open>startValidation\<close> from its call up to its first \<^verbatim>\<open>await\<close>, or to its end\<close>
  "validationTask_begin citation rs =
     (if shouldCancel (state rs) then rs\<lparr>finishing := finishing rs + 1\<rparr>
      else if ext_complete citation = Some False then
        rs\<lparr>state := addExtraction (state rs) (finalizeIncomplete citation),
           finishing := finishing rs + 1\<rparr>
      else rs\<lparr>validating := validating rs @ [citation]\<rparr>)"

definition limiterStep ::
  "(extraction rate_limiter \<Rightarrow> extraction rate_limiter) \<Rightarrow> run_state \<Rightarrow> run_state" where
  \<comment> \<open>a step of the validation limiter: the tasks that it starts begin to run, in the order
      in which it starts them (a task does not touch the limiter)\<close>
  "limiterStep step rs =
     foldl (\<lambda>r citation. validationTask_begin citation r)
       (rs\<lparr>validationLimiter := step (validationLimiter rs)\<rparr>)
       (drop (length (started (validationLimiter rs))) (started (step (validationLimiter rs))))"

definition startValidation :: "int \<Rightarrow> extraction \<Rightarrow> run_state \<Rightarrow> run_state" where
  \<comment> \<open>\<^verbatim>\<open>pendingValidations.push(validationLimiter.schedule(task))\<close>\<close>
  "startValidation t citation rs =
     (limiterStep (schedule t citation) rs)\<lparr>pendingValidations := pendingValidations rs @ [citation]\<rparr>"

definition startValidations :: "int \<Rightarrow> extraction list \<Rightarrow> run_state \<Rightarrow> run_state" where
  \<comment> \<open>\<^verbatim>\<open>for (const pending of pendingIncompleteEnd) startValidation(pending)\<close>\<close>
  "startValidations t cs rs = foldl (\<lambda>r c. startValidation t c r) rs cs"

definition removeAt :: "nat \<Rightarrow> 'a list \<Rightarrow> 'a list" where
  \<comment> \<open>\<^verbatim>\<open>xs.splice(k, 1)\<close>\<close>
  "removeAt k xs = take k xs @ drop (Suc k) xs"

definition applyEvent :: "services \<Rightarrow> string \<Rightarrow> run_state \<Rightarrow> async_event \<Rightarrow> run_state" where
  \<comment> \<open>an event that does not fit the state (no such task, no such timer) does not happen;
      \<^verbatim>\<open>validateCitation\<close> works on the citation alone, so its result is taken when it returns\<close>
  "applyEvent env userEmail rs ev =
     (case ev of
        UserCancels \<Rightarrow> rs\<lparr>state := (state rs)\<lparr>shouldCancel := True\<rparr>\<rparr>
      | ValidationReturns k \<Rightarrow>
          if k < length (validating rs) then
            (case validateCitation env (validating rs ! k) userEmail of
               Inl e \<Rightarrow> rs\<lparr>validating := removeAt k (validating rs), finishing := finishing rs + 1\<rparr>
             | Inr citation \<Rightarrow>
                 rs\<lparr>state := addExtraction (state rs) citation,
                    validating := removeAt k (validating rs), finishing := finishing rs + 1\<rparr>)
          else rs
      | TaskSettles t \<Rightarrow>
          if 0 < finishing rs then limiterStep (taskSettled t) (rs\<lparr>finishing := finishing rs - 1\<rparr>)
          else rs
      | TimerFires due t \<Rightarrow>
          if due \<in> set (timers (validationLimiter rs)) then limiterStep (timerFired due t) rs
          else rs)"

definition awaitEvents :: "services \<Rightarrow> string \<Rightarrow> async_event list \<Rightarrow> run_state \<Rightarrow> run_state" where
  "awaitEvents env userEmail evs rs = foldl (applyEvent env userEmail) rs evs"

fun findMatchingPendingEnd_loop :: "extraction list \<Rightarrow> extraction \<Rightarrow> nat \<Rightarrow> int" where
  "findMatchingPendingEnd_loop [] startExtraction i = -1"
| "findMatchingPendingEnd_loop (p # ps) startExtraction i =
     (if extractionsOverlap p startExtraction then int i
      else findMatchingPendingEnd_loop ps startExtraction (i + 1))"

definition findMatchingPendingEnd :: "extraction list \<Rightarrow> extraction \<Rightarrow> int" where
  "findMatchingPendingEnd pending startExtraction =
     (if ext_complete startExtraction \<noteq> Some False \<or> position startExtraction \<noteq> Some ''start''
      then -1
      else findMatchingPendingEnd_loop pending startExtraction 0)"

fun supersede_loop :: "extraction list \<Rightarrow> extraction \<Rightarrow> nat \<Rightarrow> extraction list" where
  \<comment> \<open>\<^verbatim>\<open>for (let k = pending.length - 1; k >= 0; k--)\<close>, entered with \<open>n = length pending\<close>;
      the argument is \<open>k + 1\<close>\<close>
  "supersede_loop pending processed 0 = pending"
| "supersede_loop pending processed (Suc k) =
     (if completeSupersedes (pending ! k) processed then removeAt k pending
      else supersede_loop pending processed k)"

definition assignIdentity :: "extraction \<Rightarrow> int \<Rightarrow> extraction" where
  \<comment> \<open>\<^verbatim>\<open>processed.id = `extraction-${extractionIndex}`; processed.index = extractionIndex\<close>\<close>
  "assignIdentity processed idx = processed\<lparr>ext_id := Some (extractionId idx), index := Some idx\<rparr>"

fun processCitations ::
  "bool \<Rightarrow> int \<Rightarrow> int \<Rightarrow> extraction list \<Rightarrow> run_state \<Rightarrow> extraction list \<Rightarrow>
   run_state \<times> extraction list"
where
  \<comment> \<open>the loop over the citations of one window; the last argument is \<^verbatim>\<open>newIncompleteEnd\<close>\<close>
  "processCitations isLastWindow wIndex t [] rs newIncompleteEnd = (rs, newIncompleteEnd)"
| "processCitations isLastWindow wIndex t (citation # rest) rs newIncompleteEnd =
     (if shouldCancel (state rs) then (rs, newIncompleteEnd)
      else if ext_complete (processExtraction citation (extractionIndex rs) wIndex) = Some False \<and>
              position (processExtraction citation (extractionIndex rs) wIndex) = Some ''start'' \<and>
              findMatchingPendingEnd (pendingIncompleteEnd rs)
                (processExtraction citation (extractionIndex rs) wIndex) \<ge> 0
      then
        processCitations isLastWindow wIndex t rest
          (startValidation t
             (mergeExtractions
                (pendingIncompleteEnd rs !
                   nat (findMatchingPendingEnd (pendingIncompleteEnd rs)
                          (processExtraction citation (extractionIndex rs) wIndex)))
                (processExtraction citation (extractionIndex rs) wIndex))
             (rs\<lparr>pendingIncompleteEnd :=
                   removeAt (nat (findMatchingPendingEnd (pendingIncompleteEnd rs)
                                    (processExtraction citation (extractionIndex rs) wIndex)))
                            (pendingIncompleteEnd rs)\<rparr>))
          newIncompleteEnd
      else if ext_complete (processExtraction citation (extractionIndex rs) wIndex) = Some False \<and>
              position (processExtraction citation (extractionIndex rs) wIndex) = Some ''end'' \<and>
              \<not> isLastWindow
      then
        processCitations isLastWindow wIndex t rest
          (rs\<lparr>extractionIndex := extractionIndex rs + 1\<rparr>)
          (newIncompleteEnd @
             [assignIdentity (processExtraction citation (extractionIndex rs) wIndex)
                (extractionIndex rs)])
      else
        processCitations isLastWindow wIndex t rest
          ((startValidation t
              (assignIdentity (processExtraction citation (extractionIndex rs) wIndex)
                 (extractionIndex rs))
              (rs\<lparr>pendingIncompleteEnd :=
                    (if ext_complete (processExtraction citation (extractionIndex rs) wIndex) \<noteq> Some False
                     then supersede_loop (pendingIncompleteEnd rs)
                            (processExtraction citation (extractionIndex rs) wIndex)
                            (length (pendingIncompleteEnd rs))
                     else pendingIncompleteEnd rs)\<rparr>))
             \<lparr>extractionIndex := extractionIndex rs + 1\<rparr>)
          newIncompleteEnd)"

definition processWindow_error :: "nat \<Rightarrow> int \<Rightarrow> string \<Rightarrow> run_state \<Rightarrow> run_state" where
  \<comment> \<open>the branch \<^verbatim>\<open>if (error) { ... continue; }\<close> for window \<open>i\<close> (0-based)\<close>
  "processWindow_error i t message rs =
     (startValidations t (pendingIncompleteEnd rs) rs)
       \<lparr>pendingIncompleteEnd := [],
        state := addExtraction (state (startValidations t (pendingIncompleteEnd rs) rs))
                   (createErrorExtraction (extractionIndex rs) (int i + 1) message),
        extractionIndex := extractionIndex rs + 1\<rparr>"

definition processWindow_ok ::
  "nat \<Rightarrow> nat \<Rightarrow> int \<Rightarrow> extraction list \<Rightarrow> run_state \<Rightarrow> run_state" where
  \<comment> \<open>the rest of the loop body, when the call returned \<open>citations\<close>\<close>
  "processWindow_ok totalWindows i t citations rs =
     (case processCitations (int i = int totalWindows - 1) (int i + 1) t citations rs [] of
        (rs1, newIncompleteEnd) \<Rightarrow>
          (startValidations t (pendingIncompleteEnd rs1) rs1)\<lparr>pendingIncompleteEnd := newIncompleteEnd\<rparr>)"

definition processWindow ::
  "services \<Rightarrow> string \<Rightarrow> nat \<Rightarrow> nat \<Rightarrow> window_input \<Rightarrow> run_state \<Rightarrow> run_state" where
  \<comment> \<open>one iteration after the check at its top: the awaited call, then one of the branches\<close>
  "processWindow env userEmail totalWindows i w rs =
     (case outcome w of
        Inl message \<Rightarrow> processWindow_error i (clock w) message (awaitEvents env userEmail (events w) rs)
      | Inr citations \<Rightarrow>
          processWindow_ok totalWindows i (clock w) citations (awaitEvents env userEmail (events w) rs))"

fun processWindows ::
  "services \<Rightarrow> string \<Rightarrow> nat \<Rightarrow> nat \<Rightarrow> window_input list \<Rightarrow> run_state \<Rightarrow> run_state" where
  \<comment> \<open>\<^verbatim>\<open>for (let i = 0; i < totalWindows; i++)\<close> from window \<open>i\<close> on, over the inputs of the
      windows still to come\<close>
  "processWindows env userEmail totalWindows i [] rs = rs"
| "processWindows env userEmail totalWindows i (w # ws) rs =
     (if shouldCancel (state rs) then rs
      else processWindows env userEmail totalWindows (Suc i) ws
             (processWindow env userEmail totalWindows i w rs))"

definition allSettled :: "run_state \<Rightarrow> bool" where
  \<comment> \<open>every promise of \<^verbatim>\<open>pendingValidations\<close> is settled: no task waits in the limiter's
      queue, none is in flight, none is over without having settled\<close>
  "allSettled rs = (queue (validationLimiter rs) = [] \<and> validating rs = [] \<and> finishing rs = 0)"

definition processAllWindows ::
  "services \<Rightarrow> string \<Rightarrow> int option \<Rightarrow> ext_state \<Rightarrow> window_input list \<Rightarrow> async_event list \<Rightarrow>
   run_state option" where
  \<comment> \<open>from \<^verbatim>\<open>settings.userEmail\<close>, \<^verbatim>\<open>settings.maxValidationRPM\<close>, the state, one input for each
      window of \<^verbatim>\<open>state.currentWindows\<close> and the events during the final wait:
      the variables when the function returns, or \<^const>\<open>None\<close> when after these events it
      still waits for a validation.  The hand-over after the loop runs in the section of the
      last window.  \<^verbatim>\<open>buildLineExtractionMap\<close> does not change the extractions.\<close>
  "processAllWindows env userEmail maxValidationRPM st inputs finalEvents =
     (let rs1 = processWindows env userEmail (length inputs) 0 inputs
                  \<lparr>state = st, extractionIndex = 0, pendingIncompleteEnd = [],
                   pendingValidations = [],
                   validationLimiter =
                     createValidationRateLimiter
                       (if truthyN maxValidationRPM then the maxValidationRPM else 50),
                   validating = [], finishing = 0\<rparr>;
          rs2 = (if \<not> shouldCancel (state rs1) \<and> inputs \<noteq> []  \<comment> \<open>without a window nothing is pending\<close>
                 then startValidations (clock (last inputs)) (pendingIncompleteEnd rs1) rs1 else rs1);
          rs3 = (if pendingValidations rs2 \<noteq> [] then awaitEvents env userEmail finalEvents rs2
                 else rs2)
      in if allSettled rs3
         then Some (rs3\<lparr>state := snd (deduplicateExtractions (state rs3))\<rparr>)
         else None)"

definition incompleteOnes :: "extraction list \<Rightarrow> extraction list" where
  \<comment> \<open>the citations with \<^verbatim>\<open>complete === false\<close>\<close>
  "incompleteOnes cs = filter (\<lambda>c. ext_complete c = Some False) cs"

definition okWindow :: "async_event list \<Rightarrow> extraction list \<Rightarrow> int \<Rightarrow> window_input" where
  "okWindow evs cs t = \<lparr>events = evs, outcome = Inr cs, clock = t\<rparr>"

definition failedWindow :: "async_event list \<Rightarrow> string \<Rightarrow> int \<Rightarrow> window_input" where
  "failedWindow evs msg t = \<lparr>events = evs, outcome = Inl msg, clock = t\<rparr>"

definition rawComplete :: "string \<Rightarrow> extraction" where
  "rawComplete t = emptyExtraction\<lparr>title := Some t, ext_complete := Some True\<rparr>"

definition rawCutAtEnd :: extraction where
  "rawCutAtEnd =
     emptyExtraction\<lparr>title := Some ''Quantum effects on'', ext_complete := Some False,
                      position := Some ''end'', reason := Some ''cut at window end''\<rparr>"

definition scenarioE :: "window_input list" where
  \<comment> \<open>five windows, a second apart; the second one leaves a citation pending, the call for
      the third throws; the validation of each complete citation returns, and its task
      settles, while the next call is awaited\<close>
  "scenarioE =
     [okWindow [] [rawComplete ''Alpha''] 1000,
      okWindow [ValidationReturns 0, TaskSettles 1500] [rawCutAtEnd] 2000,
      failedWindow [] ''boom'' 3000,
      okWindow [TaskSettles 3500] [rawComplete ''Gamma''] 4000,
      okWindow [ValidationReturns 0, TaskSettles 4500] [rawComplete ''Delta''] 5000]"

definition scenarioE_final :: "async_event list" where
  "scenarioE_final = [ValidationReturns 0, TaskSettles 5500]"

definition emptyState :: ext_state where
  "emptyState = \<lparr>extractions = [], processingResults = [], shouldCancel = False\<rparr>"

definition windowsRun :: "nat \<Rightarrow> run_state" where
  \<comment> \<open>the variables of the run of Scenario E after its first \<open>n\<close> windows\<close>
  "windowsRun n =
     processWindows servicesDown [] 5 0 (take n scenarioE)
       \<lparr>state = emptyState, extractionIndex = 0, pendingIncompleteEnd = [],
        pendingValidations = [], validationLimiter = createValidationRateLimiter 50,
        validating = [], finishing = 0\<rparr>"

section \<open>Properties of the windowing\<close>






text \<open>
  C2 (Scenario A), as the code computes it.  For a text of exactly 4500 characters that
  has a character other than white space, with \<open>windowSize = 2000\<close> and \<open>overlap = 200\<close>,
  \<^const>\<open>createWindows\<close> returns exactly three windows, with the ranges \<open>[0,2000)\<close>,
  \<open>[1800,3800)\<close> and \<open>[2500,4500)\<close>: the final window is shifted back to start at
  \<open>4500 - 2000 = 2500\<close> and ends exactly at 4500.  For a text of 4500 white-space
  characters it returns no window.
\<close>

theorem createWindows_scenarioA:
  assumes "length text = 4500"
  shows "map_option (map win_range) (createWindows text 2000 200) =
         Some (if trim text = [] then [] else [(0, 2000), (1800, 3800), (2500, 4500)])"
  using assms
  by (auto simp: createWindows_def normWindowSize_def normOverlap_def
        createWindows_loop.simps Let_def win_range_def)

theorem createWindows_scenarioA_witness:
  "length (replicate 4500 CHR ''a'') = 4500 \<and> trim (replicate 4500 CHR ''a'') \<noteq> [] \<and>
   map_option (map win_range) (createWindows (replicate 4500 CHR ''a'') 2000 200) =
     Some [(0, 2000), (1800, 3800), (2500, 4500)]"
proof -
  have l: "length (replicate 4500 CHR ''a'') = 4500" by simp
  have t: "trim (replicate 4500 CHR ''a'') \<noteq> []" by (simp add: trim_def isSpace_def)
  from createWindows_scenarioA [OF l] l t show ?thesis by simp
qed

text \<open>
  The ranges of Scenario A as the specification lists them, with a final window
  \<open>[2700,4500)\<close>, are not what \<^const>\<open>createWindows\<close> returns for 4500 letters; and for
  4500 blanks it returns no window at all.
\<close>

theorem createWindows_scenarioA_claimed_false:
  "map_option (map win_range) (createWindows (replicate 4500 CHR ''a'') 2000 200) \<noteq>
     Some [(0, 2000), (1800, 3800), (2700, 4500)] \<and>
   length (replicate 4500 CHR '' '') = 4500 \<and>
   createWindows (replicate 4500 CHR '' '') 2000 200 = Some []"
  by (simp add: createWindows_def normWindowSize_def normOverlap_def
        createWindows_loop.simps Let_def win_range_def trim_def isSpace_def)

section \<open>Properties of deduplication\<close>












section \<open>Properties of the merge\<close>

lemma emptyExtraction_sel:
  "doi emptyExtraction = None" "pmid emptyExtraction = None" "isbn emptyExtraction = None"
  "title emptyExtraction = None" "year emptyExtraction = None" "authors emptyExtraction = None"
  "container_title emptyExtraction = None" "volume emptyExtraction = None"
  "issue emptyExtraction = None" "pages emptyExtraction = None" "raw_text emptyExtraction = None"
  "query_bibliographic emptyExtraction = None" "journal emptyExtraction = None"
  "page emptyExtraction = None" "ext_complete emptyExtraction = None"
  "position emptyExtraction = None" "reason emptyExtraction = None"
  "authors_truncated emptyExtraction = None" "ext_id emptyExtraction = None"
  "index emptyExtraction = None" "colorIndex emptyExtraction = None"
  "windowIndex emptyExtraction = None" "error emptyExtraction = False"
  "errorMessage emptyExtraction = None" "validationStatus emptyExtraction = None"
  "validationMessage emptyExtraction = None" "validation emptyExtraction = None"
  by (simp_all add: emptyExtraction_def)

text \<open>
  C5 (merge).  Merging a \<open>position = end\<close> extraction \<open>p\<close> (the primary side) with a
  \<open>position = start\<close> extraction \<open>s\<close>, in either argument order, gives a record that is
  complete and has neither \<open>position\<close> nor \<open>reason\<close>.  Its \<open>raw_text\<close> is the primary text,
  a newline and the secondary text when both are present, otherwise whichever is present.
  Each of \<open>doi\<close>, \<open>pmid\<close>, \<open>isbn\<close>, \<open>year\<close>, \<open>volume\<close>, \<open>issue\<close>, \<open>pages\<close> keeps a present
  primary value and is taken from the secondary side only where the primary value is
  empty.  The two extractions of Scenario B merge to a complete record with the raw text
  \<open>Smith J. Intro to\<close>, newline, \<open>Foo. Nature 2020\<close>.
\<close>

theorem mergeExtractions_end_start:
  "(position p = Some ''end'' \<and> position s = Some ''start'' \<longrightarrow>
      mergeExtractions s p = mergeExtractions p s \<and>
      ext_complete (mergeExtractions p s) = Some True \<and>
      position (mergeExtractions p s) = None \<and>
      reason (mergeExtractions p s) = None \<and>
      raw_text (mergeExtractions p s) =
        (if truthy (raw_text p) \<and> truthy (raw_text s)
         then Some (the (raw_text p) @ [CHR 0x0A] @ the (raw_text s))
         else if truthy (raw_text p) then raw_text p
         else if truthy (raw_text s) then raw_text s else raw_text p) \<and>
      doi (mergeExtractions p s) = (if truthy (doi p) \<or> \<not> truthy (doi s) then doi p else doi s) \<and>
      pmid (mergeExtractions p s) = (if truthyS (pmid p) \<or> \<not> truthyS (pmid s) then pmid p else pmid s) \<and>
      isbn (mergeExtractions p s) = (if truthy (isbn p) \<or> \<not> truthy (isbn s) then isbn p else isbn s) \<and>
      year (mergeExtractions p s) = (if truthyS (year p) \<or> \<not> truthyS (year s) then year p else year s) \<and>
      volume (mergeExtractions p s) =
        (if truthyS (volume p) \<or> \<not> truthyS (volume s) then volume p else volume s) \<and>
      issue (mergeExtractions p s) =
        (if truthyS (issue p) \<or> \<not> truthyS (issue s) then issue p else issue s) \<and>
      pages (mergeExtractions p s) =
        (if truthyS (pages p) \<or> \<not> truthyS (pages s) then pages p else pages s)) \<and>
   ext_complete (mergeExtractions scenarioB_end scenarioB_start) = Some True \<and>
   raw_text (mergeExtractions scenarioB_end scenarioB_start) =
     Some (''Smith J. Intro to'' @ [CHR 0x0A] @ ''Foo. Nature 2020'') \<and>
   position (mergeExtractions scenarioB_end scenarioB_start) = None \<and>
   reason (mergeExtractions scenarioB_end scenarioB_start) = None"
proof (intro conjI impI)
  assume ps: "position p = Some ''end'' \<and> position s = Some ''start''"
  then have pe: "position p = Some ''end''" and "position s \<noteq> Some ''end''" by simp_all
  then show "mergeExtractions s p = mergeExtractions p s"
    by (simp add: mergeExtractions_def)
  note m = mergeExtractions_def Let_def fillMissing_def fillMissingS_def
  from pe show "ext_complete (mergeExtractions p s) = Some True" by (simp add: m)
  from pe show "position (mergeExtractions p s) = None" by (simp add: m)
  from pe show "reason (mergeExtractions p s) = None" by (simp add: m)
  from pe show "raw_text (mergeExtractions p s) =
        (if truthy (raw_text p) \<and> truthy (raw_text s)
         then Some (the (raw_text p) @ [CHR 0x0A] @ the (raw_text s))
         else if truthy (raw_text p) then raw_text p
         else if truthy (raw_text s) then raw_text s else raw_text p)" by (simp add: m)
  from pe show "doi (mergeExtractions p s) = (if truthy (doi p) \<or> \<not> truthy (doi s) then doi p else doi s)"
    by (simp add: m)
  from pe show "pmid (mergeExtractions p s) = (if truthyS (pmid p) \<or> \<not> truthyS (pmid s) then pmid p else pmid s)"
    by (simp add: m)
  from pe show "isbn (mergeExtractions p s) = (if truthy (isbn p) \<or> \<not> truthy (isbn s) then isbn p else isbn s)"
    by (simp add: m)
  from pe show "year (mergeExtractions p s) = (if truthyS (year p) \<or> \<not> truthyS (year s) then year p else year s)"
    by (simp add: m)
  from pe show "volume (mergeExtractions p s) =
        (if truthyS (volume p) \<or> \<not> truthyS (volume s) then volume p else volume s)" by (simp add: m)
  from pe show "issue (mergeExtractions p s) =
        (if truthyS (issue p) \<or> \<not> truthyS (issue s) then issue p else issue s)" by (simp add: m)
  from pe show "pages (mergeExtractions p s) =
        (if truthyS (pages p) \<or> \<not> truthyS (pages s) then pages p else pages s)" by (simp add: m)
next
  note b = mergeExtractions_def scenarioB_end_def scenarioB_start_def emptyExtraction_sel
    Let_def truthy_def
  show "ext_complete (mergeExtractions scenarioB_end scenarioB_start) = Some True"
    by (simp add: b)
  show "raw_text (mergeExtractions scenarioB_end scenarioB_start) =
     Some (''Smith J. Intro to'' @ [CHR 0x0A] @ ''Foo. Nature 2020'')"
    by (simp add: b)
  show "position (mergeExtractions scenarioB_end scenarioB_start) = None"
    by (simp add: b)
  show "reason (mergeExtractions scenarioB_end scenarioB_start) = None"
    by (simp add: b)
qed

theorem mergeExtractions_end_start_witness:
  "position partialEnd = Some ''end'' \<and> position partialStart = Some ''start'' \<and>
   ext_complete (mergeExtractions partialEnd partialStart) = Some True \<and>
   position (mergeExtractions partialEnd partialStart) = None \<and>
   reason (mergeExtractions partialEnd partialStart) = None \<and>
   raw_text (mergeExtractions partialEnd partialStart) =
     Some (''Smith J. Intro to'' @ [CHR 0x0A] @ ''Foo. Nature 2020'') \<and>
   doi (mergeExtractions partialEnd partialStart) = Some ''10.1/x'' \<and>
   year (mergeExtractions partialEnd partialStart) = Some (Num 2020) \<and>
   volume (mergeExtractions partialEnd partialStart) = Some (Str ''12'')"
proof -
  have h: "position partialEnd = Some ''end'' \<and> position partialStart = Some ''start''"
    by (simp add: partialEnd_def partialStart_def emptyExtraction_sel)
  from mergeExtractions_end_start [of partialEnd partialStart] h
  have g: "ext_complete (mergeExtractions partialEnd partialStart) = Some True"
    "position (mergeExtractions partialEnd partialStart) = None"
    "reason (mergeExtractions partialEnd partialStart) = None"
    "raw_text (mergeExtractions partialEnd partialStart) =
        (if truthy (raw_text partialEnd) \<and> truthy (raw_text partialStart)
         then Some (the (raw_text partialEnd) @ [CHR 0x0A] @ the (raw_text partialStart))
         else if truthy (raw_text partialEnd) then raw_text partialEnd
         else if truthy (raw_text partialStart) then raw_text partialStart else raw_text partialEnd)"
    "doi (mergeExtractions partialEnd partialStart) =
       (if truthy (doi partialEnd) \<or> \<not> truthy (doi partialStart) then doi partialEnd else doi partialStart)"
    "year (mergeExtractions partialEnd partialStart) =
       (if truthyS (year partialEnd) \<or> \<not> truthyS (year partialStart) then year partialEnd else year partialStart)"
    "volume (mergeExtractions partialEnd partialStart) =
       (if truthyS (volume partialEnd) \<or> \<not> truthyS (volume partialStart) then volume partialEnd
        else volume partialStart)"
    by blast+
  have v: "raw_text partialEnd = Some ''Smith J. Intro to''" "raw_text partialStart = Some ''Foo. Nature 2020''"
    "doi partialEnd = None" "doi partialStart = Some ''10.1/x''"
    "year partialEnd = Some (Num 2020)" "year partialStart = Some (Num 2021)"
    "volume partialEnd = None" "volume partialStart = Some (Str ''12'')"
    by (simp_all add: partialEnd_def partialStart_def emptyExtraction_sel)
  from g h show ?thesis by (simp add: v truthy_def truthyS_def)
qed

section \<open>Properties of double arithmetic\<close>

lemma bitLength_bounds:
  "0 < n \<Longrightarrow> 1 \<le> bitLength n \<and> 2 ^ nat (bitLength n - 1) \<le> n \<and> n < 2 ^ nat (bitLength n)"
proof (induction n rule: bitLength.induct)
  case (1 n)
  show ?case
  proof (cases "n = 1")
    case True
    have "bitLength 1 = 1" by (simp add: bitLength.simps)
    with True show ?thesis by simp
  next
    case False
    with 1 have h: "0 < n div 2" by simp
    from 1 have nle: "\<not> n \<le> 0" by simp
    from "1.IH"[OF nle h] have ih: "1 \<le> bitLength (n div 2)"
      "2 ^ nat (bitLength (n div 2) - 1) \<le> n div 2" "n div 2 < 2 ^ nat (bitLength (n div 2))"
      by simp_all
    have b: "bitLength n = 1 + bitLength (n div 2)" using nle by (subst bitLength.simps) simp
    have e1: "nat (bitLength n - 1) = Suc (nat (bitLength (n div 2) - 1))"
      using ih(1) b by simp
    have e2: "nat (bitLength n) = Suc (nat (bitLength (n div 2)))" using ih(1) b by simp
    have "2 * 2 ^ nat (bitLength (n div 2) - 1) \<le> n" using ih(2) by linarith
    moreover have "n < 2 * 2 ^ nat (bitLength (n div 2))" using ih(3) by linarith
    ultimately show ?thesis using b ih(1) e1 e2 by simp
  qed
qed

lemma binade_bounds:
  assumes "0 < x"
  shows "2 powi binade x \<le> x \<and> x < 2 powi (binade x + 1)"
proof -
  obtain a b where q: "quotient_of x = (a, b)" by (cases "quotient_of x")
  then have b: "0 < b" and x: "x = of_int a / of_int b"
    using quotient_of_denom_pos[of x a b] quotient_of_div[of x a b] by simp_all
  from assms x b have a: "0 < a" by (simp add: zero_less_divide_iff)
  define la where "la = bitLength a"
  define lb where "lb = bitLength b"
  define k where "k = la - lb"
  from bitLength_bounds[OF a] have A: "1 \<le> la" "2 ^ nat (la - 1) \<le> a" "a < 2 ^ nat la"
    by (simp_all add: la_def)
  from bitLength_bounds[OF b] have B: "1 \<le> lb" "2 ^ nat (lb - 1) \<le> b" "b < 2 ^ nat lb"
    by (simp_all add: lb_def)
  have pa: "(2::rat) powi (la - 1) \<le> of_int a" "of_int a < (2::rat) powi la"
  proof -
    have "rat_of_int (2 ^ nat (la - 1)) \<le> of_int a" using A(2) by (simp only: of_int_le_iff)
    then show "(2::rat) powi (la - 1) \<le> of_int a" using A(1) by (simp add: power_int_def)
    have "rat_of_int a < of_int (2 ^ nat la)" using A(3) by (simp only: of_int_less_iff)
    then show "of_int a < (2::rat) powi la" using A(1) by (simp add: power_int_def)
  qed
  have pb: "(2::rat) powi (lb - 1) \<le> of_int b" "of_int b < (2::rat) powi lb"
  proof -
    have "rat_of_int (2 ^ nat (lb - 1)) \<le> of_int b" using B(2) by (simp only: of_int_le_iff)
    then show "(2::rat) powi (lb - 1) \<le> of_int b" using B(1) by (simp add: power_int_def)
    have "rat_of_int b < of_int (2 ^ nat lb)" using B(3) by (simp only: of_int_less_iff)
    then show "of_int b < (2::rat) powi lb" using B(1) by (simp add: power_int_def)
  qed
  have bpos: "(0::rat) < of_int b" using b by simp
  have up: "x < 2 powi (k + 1)"
  proof -
    have "of_int a < (2::rat) powi (k + 1) * 2 powi (lb - 1)"
      using pa(2) by (simp add: k_def power_int_add[symmetric])
    also have "\<dots> \<le> 2 powi (k + 1) * of_int b"
      using pb(1) by (intro mult_left_mono) simp_all
    finally show ?thesis using bpos by (simp add: x pos_divide_less_eq)
  qed
  have lo: "2 powi (k - 1) < x"
  proof -
    have "(2::rat) powi (k - 1) * of_int b < 2 powi (k - 1) * 2 powi lb"
      using pb(2) by (intro mult_strict_left_mono) simp_all
    also have "\<dots> = 2 powi (la - 1)" by (simp add: k_def power_int_add[symmetric])
    also have "\<dots> \<le> of_int a" by (rule pa(1))
    finally show ?thesis using bpos by (simp add: x pos_less_divide_eq)
  qed
  have bin: "binade x = (if 2 powi k \<le> x then k else k - 1)"
    by (simp add: binade_def q Let_def k_def la_def lb_def)
  show ?thesis
  proof (cases "2 powi k \<le> x")
    case True
    with bin up show ?thesis by simp
  next
    case False
    with bin lo show ?thesis by simp
  qed
qed

lemma roundHalfEven_error: "\<bar>of_int (roundHalfEven q) - q\<bar> \<le> 1 / 2"
proof -
  have "of_int \<lfloor>q\<rfloor> \<le> q" "q < of_int \<lfloor>q\<rfloor> + 1" by linarith+
  then show ?thesis by (auto simp: roundHalfEven_def Let_def)
qed

lemma roundHalfEven_of_int: "roundHalfEven (of_int n) = n"
  by (simp add: roundHalfEven_def Let_def)

lemma roundHalfEven_range: "\<lfloor>q\<rfloor> \<le> roundHalfEven q \<and> roundHalfEven q \<le> \<lfloor>q\<rfloor> + 1"
  by (simp add: roundHalfEven_def Let_def)

lemma roundHalfEven_mono:
  assumes "q \<le> q'"
  shows "roundHalfEven q \<le> roundHalfEven q'"
proof (cases "\<lfloor>q\<rfloor> = \<lfloor>q'\<rfloor>")
  case True
  with assms show ?thesis by (auto simp: roundHalfEven_def Let_def)
next
  case False
  with assms have "\<lfloor>q\<rfloor> < \<lfloor>q'\<rfloor>" using floor_mono[OF assms] by linarith
  with roundHalfEven_range[of q] roundHalfEven_range[of q'] show ?thesis by linarith
qed

lemma powi_less_imp: "(2::rat) powi a < 2 powi b \<Longrightarrow> a < b"
  using power_int_increasing[of b a "2::rat"] by (cases "a < b") simp_all

lemma powi_split52: "(2::rat) ^ 52 * 2 powi (e - 52) = 2 powi e"
proof -
  have "(2::rat) powi e = 2 powi (52 + (e - 52))" by simp
  also have "\<dots> = 2 powi 52 * 2 powi (e - 52)" by (rule power_int_add) simp
  finally show ?thesis by simp
qed

lemma powi_split53: "(2::rat) ^ 53 * 2 powi (e - 52) = 2 powi (e + 1)"
proof -
  have "e + 1 = 53 + (e - 52)" by simp
  then have "(2::rat) powi (e + 1) = 2 powi (53 + (e - 52))" by (rule arg_cong)
  also have "\<dots> = 2 powi 53 * 2 powi (e - 52)" by (rule power_int_add) simp
  finally show ?thesis by simp
qed

lemma roundDouble_pos:
  assumes "0 < x"
  shows "roundDouble x =
           of_int (roundHalfEven (x / 2 powi (binade x - 52))) * 2 powi (binade x - 52)"
  using assms by (simp add: roundDouble_def Let_def)

lemma scaled_bounds:
  assumes "0 < x"
  shows "2 ^ 52 \<le> x / 2 powi (binade x - 52) \<and> x / 2 powi (binade x - 52) < 2 ^ 53"
proof -
  let ?e = "binade x"
  have p: "(0::rat) < 2 powi (?e - 52)" by simp
  from binade_bounds[OF assms] have b: "2 powi ?e \<le> x" "x < 2 powi (?e + 1)" by simp_all
  note lo = powi_split52[of ?e] and hi = powi_split53[of ?e]
  have "2 ^ 52 \<le> x / 2 powi (?e - 52)" using b(1) p by (simp only: pos_le_divide_eq lo)
  moreover have "x / 2 powi (?e - 52) < 2 ^ 53" using b(2) p by (simp only: pos_divide_less_eq hi)
  ultimately show ?thesis by simp
qed

lemma roundDouble_0: "roundDouble 0 = 0"
  by (simp add: roundDouble_def)

lemma roundDouble_nonneg: "0 \<le> x \<Longrightarrow> 0 \<le> roundDouble x"
proof (cases "x = 0")
  case True
  then show ?thesis by (simp add: roundDouble_0)
next
  case False
  assume "0 \<le> x"
  with False have x: "0 < x" by simp
  have "0 \<le> x / 2 powi (binade x - 52)" using x by simp
  then have "roundHalfEven 0 \<le> roundHalfEven (x / 2 powi (binade x - 52))"
    by (rule roundHalfEven_mono)
  then have "0 \<le> roundHalfEven (x / 2 powi (binade x - 52))"
    using roundHalfEven_of_int[of 0] by simp
  then show ?thesis unfolding roundDouble_pos[OF x] by simp
qed

lemma roundDouble_pos_bounds:
  assumes "0 < x"
  shows "2 powi binade x \<le> roundDouble x \<and> roundDouble x \<le> 2 powi (binade x + 1)"
proof -
  let ?e = "binade x"
  let ?q = "x / 2 powi (?e - 52)"
  from scaled_bounds[OF assms] have q: "2 ^ 52 \<le> ?q" "?q < 2 ^ 53" by simp_all
  have "roundHalfEven (of_int (2 ^ 52)) \<le> roundHalfEven ?q"
    by (rule roundHalfEven_mono) (use q in simp)
  then have lo: "2 ^ 52 \<le> roundHalfEven ?q" by (simp only: roundHalfEven_of_int)
  have "roundHalfEven ?q \<le> roundHalfEven (of_int (2 ^ 53))"
    by (rule roundHalfEven_mono) (use q in simp)
  then have hi: "roundHalfEven ?q \<le> 2 ^ 53" by (simp only: roundHalfEven_of_int)
  have p: "(0::rat) \<le> 2 powi (?e - 52)" by simp
  have "(2::rat) powi ?e = of_int (2 ^ 52) * 2 powi (?e - 52)"
    using powi_split52[of ?e] by simp
  also have "\<dots> \<le> of_int (roundHalfEven ?q) * 2 powi (?e - 52)"
    using lo p by (intro mult_right_mono) (simp_all only: of_int_le_iff)
  finally have 1: "2 powi ?e \<le> roundDouble x" unfolding roundDouble_pos[OF assms] .
  have "rat_of_int (roundHalfEven ?q) * 2 powi (?e - 52) \<le> of_int (2 ^ 53) * 2 powi (?e - 52)"
    using hi p by (intro mult_right_mono) (simp_all only: of_int_le_iff)
  also have "\<dots> = 2 powi (?e + 1)" using powi_split53[of ?e] by simp
  finally have 2: "roundDouble x \<le> 2 powi (?e + 1)" unfolding roundDouble_pos[OF assms] .
  from 1 2 show ?thesis by simp
qed

lemma roundDouble_mono:
  assumes "0 \<le> x" "x \<le> y"
  shows "roundDouble x \<le> roundDouble y"
proof (cases "x = 0")
  case True
  with assms roundDouble_nonneg[of y] show ?thesis by (simp add: roundDouble_0)
next
  case False
  with assms have x: "0 < x" and y: "0 < y" by simp_all
  let ?ex = "binade x" and ?ey = "binade y"
  from binade_bounds[OF x] binade_bounds[OF y] assms(2)
  have "(2::rat) powi ?ex < 2 powi (?ey + 1)" by linarith
  then have "?ex < ?ey + 1" by (rule powi_less_imp)
  then have le: "?ex \<le> ?ey" by simp
  show ?thesis
  proof (cases "?ex = ?ey")
    case True
    have "x / 2 powi (?ey - 52) \<le> y / 2 powi (?ey - 52)"
      using assms(2) by (simp add: divide_right_mono)
    then have "roundHalfEven (x / 2 powi (?ey - 52)) \<le> roundHalfEven (y / 2 powi (?ey - 52))"
      by (rule roundHalfEven_mono)
    then have "rat_of_int (roundHalfEven (x / 2 powi (?ey - 52))) * 2 powi (?ey - 52) \<le>
               of_int (roundHalfEven (y / 2 powi (?ey - 52))) * 2 powi (?ey - 52)"
      by (intro mult_right_mono) (simp_all only: of_int_le_iff, simp)
    then show ?thesis unfolding roundDouble_pos[OF x] roundDouble_pos[OF y] True .
  next
    case False
    with le have "?ex + 1 \<le> ?ey" by simp
    then have "(2::rat) powi (?ex + 1) \<le> 2 powi ?ey" by (intro power_int_increasing) simp_all
    with roundDouble_pos_bounds[OF x] roundDouble_pos_bounds[OF y] show ?thesis by linarith
  qed
qed

lemma roundDouble_error:
  assumes "0 \<le> x" "x < 2 powi k"
  shows "\<bar>roundDouble x - x\<bar> \<le> 2 powi (k - 54)"
proof (cases "x = 0")
  case True
  then show ?thesis by (simp add: roundDouble_0)
next
  case False
  with assms have x: "0 < x" by simp
  let ?e = "binade x"
  let ?u = "(2::rat) powi (?e - 52)"
  let ?q = "x / ?u"
  have u: "0 < ?u" by simp
  from binade_bounds[OF x] assms(2) have "(2::rat) powi ?e < 2 powi k" by linarith
  then have "?e < k" by (rule powi_less_imp)
  then have "?e - 53 \<le> k - 54" by simp
  then have ek: "(2::rat) powi (?e - 53) \<le> 2 powi (k - 54)"
    by (intro power_int_increasing) simp_all
  have "roundDouble x - x = (of_int (roundHalfEven ?q) - ?q) * ?u"
    unfolding roundDouble_pos[OF x] by (simp add: algebra_simps)
  then have "\<bar>roundDouble x - x\<bar> = \<bar>of_int (roundHalfEven ?q) - ?q\<bar> * ?u"
    by (simp add: abs_mult)
  also have "\<dots> \<le> (1 / 2) * ?u"
    using roundHalfEven_error[of ?q] by (intro mult_right_mono) simp_all
  also have "\<dots> = 2 powi (?e - 53)"
  proof -
    have "(2::rat) powi (?e - 52) = 2 powi (?e - 53 + 1)" by simp
    also have "\<dots> = 2 powi (?e - 53) * 2" by (subst power_int_add) simp_all
    finally show ?thesis by simp
  qed
  finally show ?thesis using ek by linarith
qed

section \<open>Rounding errors of the weighted sums\<close>

lemma roundDouble_1: "roundDouble 1 = 1"
  by code_simp

lemma weight_values:
  "1 / 5 \<le> FIELD_WEIGHTS ''title'' \<and> FIELD_WEIGHTS ''title'' \<le> 10 \<and>
   roundDouble (FIELD_WEIGHTS ''title'') = FIELD_WEIGHTS ''title''"
  "1 / 5 \<le> FIELD_WEIGHTS ''authors'' \<and> FIELD_WEIGHTS ''authors'' \<le> 10 \<and>
   roundDouble (FIELD_WEIGHTS ''authors'') = FIELD_WEIGHTS ''authors''"
  "1 / 5 \<le> FIELD_WEIGHTS ''year'' \<and> FIELD_WEIGHTS ''year'' \<le> 10 \<and>
   roundDouble (FIELD_WEIGHTS ''year'') = FIELD_WEIGHTS ''year''"
  "1 / 5 \<le> FIELD_WEIGHTS ''journal'' \<and> FIELD_WEIGHTS ''journal'' \<le> 10 \<and>
   roundDouble (FIELD_WEIGHTS ''journal'') = FIELD_WEIGHTS ''journal''"
  "1 / 5 \<le> FIELD_WEIGHTS ''volume'' \<and> FIELD_WEIGHTS ''volume'' \<le> 10 \<and>
   roundDouble (FIELD_WEIGHTS ''volume'') = FIELD_WEIGHTS ''volume''"
  "1 / 5 \<le> FIELD_WEIGHTS ''pages'' \<and> FIELD_WEIGHTS ''pages'' \<le> 10 \<and>
   roundDouble (FIELD_WEIGHTS ''pages'') = FIELD_WEIGHTS ''pages''"
  by code_simp+

lemma weight_facts:
  assumes "f \<in> set fieldNames"
  shows "1 / 5 \<le> FIELD_WEIGHTS f" "FIELD_WEIGHTS f \<le> 10"
    "roundDouble (FIELD_WEIGHTS f) = FIELD_WEIGHTS f"
proof -
  from assms have "f = ''title'' \<or> f = ''authors'' \<or> f = ''year'' \<or> f = ''journal'' \<or>
                   f = ''volume'' \<or> f = ''pages''"
    by (simp add: fieldNames_def)
  then have "1 / 5 \<le> FIELD_WEIGHTS f \<and> FIELD_WEIGHTS f \<le> 10 \<and>
             roundDouble (FIELD_WEIGHTS f) = FIELD_WEIGHTS f"
    using weight_values by (elim disjE) (simp_all only:)
  then show "1 / 5 \<le> FIELD_WEIGHTS f" "FIELD_WEIGHTS f \<le> 10"
    "roundDouble (FIELD_WEIGHTS f) = FIELD_WEIGHTS f" by simp_all
qed

lemma fmul_one_weight: "f \<in> set fieldNames \<Longrightarrow> fmul 1 (FIELD_WEIGHTS f) = FIELD_WEIGHTS f"
  by (simp add: fmul_def weight_facts)

lemma halfUlp_pos: "0 < halfUlp"
  by (simp add: halfUlp_def)

lemma term_bounds:
  assumes f: "f \<in> set fieldNames" and s: "0 \<le> s" "s \<le> 1"
  shows "0 \<le> fmul s (FIELD_WEIGHTS f)" "fmul s (FIELD_WEIGHTS f) \<le> FIELD_WEIGHTS f"
    "FIELD_WEIGHTS f * (1 - s) - halfUlp \<le> FIELD_WEIGHTS f - fmul s (FIELD_WEIGHTS f)"
proof -
  let ?w = "FIELD_WEIGHTS f"
  note w = weight_facts[OF f]
  have nn: "0 \<le> s * ?w" using s w by simp
  have le: "s * ?w \<le> ?w" using s w by (simp add: mult_left_le_one_le)
  show "0 \<le> fmul s ?w" unfolding fmul_def using nn by (rule roundDouble_nonneg)
  have "roundDouble (s * ?w) \<le> roundDouble ?w" using nn le by (rule roundDouble_mono)
  then show "fmul s ?w \<le> ?w" by (simp add: fmul_def w)
  have "s * ?w < 32" using le w(2) by linarith
  then have "s * ?w < 2 powi 5" by simp
  from roundDouble_error[OF nn this] have "\<bar>fmul s ?w - s * ?w\<bar> \<le> halfUlp"
    by (simp add: fmul_def power_int_minus_divide halfUlp_def)
  then have "fmul s ?w \<le> s * ?w + halfUlp" by (simp only: abs_le_iff) linarith
  moreover have "?w * (1 - s) = ?w - s * ?w" by (simp add: algebra_simps)
  ultimately show "?w * (1 - s) - halfUlp \<le> ?w - fmul s ?w" by linarith
qed

lemma fadd_error:
  assumes "0 \<le> a + b" "a + b < 32"
  shows "fadd a b \<le> a + b + halfUlp" "a + b - halfUlp \<le> fadd a b" "0 \<le> fadd a b"
proof -
  have "a + b < 2 powi 5" using assms by simp
  from roundDouble_error[OF assms(1) this]
  have "\<bar>fadd a b - (a + b)\<bar> \<le> halfUlp"
    by (simp add: fadd_def power_int_minus_divide halfUlp_def)
  then show "fadd a b \<le> a + b + halfUlp" "a + b - halfUlp \<le> fadd a b"
    by (simp_all only: abs_le_iff) linarith+
  show "0 \<le> fadd a b" unfolding fadd_def using assms(1) by (rule roundDouble_nonneg)
qed

lemma weights_nonneg:
  assumes "\<forall>(f, s) \<in> set fs. f \<in> set fieldNames"
  shows "0 \<le> (\<Sum>(f, s)\<leftarrow>fs. FIELD_WEIGHTS f)"
proof (rule sum_list_nonneg)
  fix x assume "x \<in> set (map (\<lambda>(f, s). FIELD_WEIGHTS f) fs)"
  then obtain g t where "(g, t) \<in> set fs" "x = FIELD_WEIGHTS g" by auto
  with assms weight_facts(1)[of g] show "0 \<le> x" by auto
qed

lemma totalWeightFrom_drift:
  assumes "\<forall>(f, s) \<in> set fs. f \<in> set fieldNames" "0 \<le> a"
    "a + (\<Sum>(f, s)\<leftarrow>fs. FIELD_WEIGHTS f) + of_nat (length fs) * halfUlp < 32"
  shows "totalWeightFrom a fs \<le> a + (\<Sum>(f, s)\<leftarrow>fs. FIELD_WEIGHTS f) + of_nat (length fs) * halfUlp \<and>
         a + (\<Sum>(f, s)\<leftarrow>fs. FIELD_WEIGHTS f) - of_nat (length fs) * halfUlp \<le> totalWeightFrom a fs"
  using assms
proof (induction fs arbitrary: a)
  case Nil
  then show ?case by simp
next
  case (Cons p fs)
  obtain f s where p: "p = (f, s)" by (cases p)
  let ?w = "FIELD_WEIGHTS f"
  let ?r = "\<Sum>(f, s)\<leftarrow>fs. FIELD_WEIGHTS f"
  let ?n = "rat_of_nat (length fs) * halfUlp"
  from Cons.prems(1) p have f: "f \<in> set fieldNames" and fs: "\<forall>(f, s) \<in> set fs. f \<in> set fieldNames"
    by auto
  note r = weights_nonneg[OF fs]
  note w = weight_facts[OF f]
  have n: "0 \<le> ?n" using halfUlp_pos by simp
  have sum: "(\<Sum>(f, s)\<leftarrow>p # fs. FIELD_WEIGHTS f) = ?w + ?r" by (simp add: p)
  have len: "rat_of_nat (length (p # fs)) * halfUlp = ?n + halfUlp" by (simp add: algebra_simps)
  have pre: "a + (?w + ?r) + (?n + halfUlp) < 32" using Cons.prems(3) unfolding sum len .
  have nn: "0 \<le> a + ?w" using Cons.prems(2) w by simp
  have lt: "a + ?w < 32" using pre r n halfUlp_pos by linarith
  note e = fadd_error[OF nn lt]
  have m: "fadd a ?w + ?r + ?n < 32" using e(1) pre by linarith
  from Cons.IH[OF fs e(3) m]
  have ih: "totalWeightFrom (fadd a ?w) fs \<le> fadd a ?w + ?r + ?n"
    "fadd a ?w + ?r - ?n \<le> totalWeightFrom (fadd a ?w) fs" by simp_all
  have t: "totalWeightFrom a (p # fs) = totalWeightFrom (fadd a ?w) fs" by (simp add: p)
  show ?case unfolding t sum len using ih e by (intro conjI) linarith+
qed

lemma scores_nonneg:
  assumes "\<forall>(f, s) \<in> set fs. f \<in> set fieldNames \<and> 0 \<le> s \<and> s \<le> 1"
  shows "0 \<le> (\<Sum>(f, s)\<leftarrow>fs. fmul s (FIELD_WEIGHTS f))"
proof (rule sum_list_nonneg)
  fix x assume "x \<in> set (map (\<lambda>(f, s). fmul s (FIELD_WEIGHTS f)) fs)"
  then obtain g t where "(g, t) \<in> set fs" "x = fmul t (FIELD_WEIGHTS g)" by auto
  with assms term_bounds(1)[of g t] show "0 \<le> x" by auto
qed

lemma scores_le_weights:
  assumes "\<forall>(f, s) \<in> set fs. f \<in> set fieldNames \<and> 0 \<le> s \<and> s \<le> 1"
  shows "(\<Sum>(f, s)\<leftarrow>fs. fmul s (FIELD_WEIGHTS f)) \<le> (\<Sum>(f, s)\<leftarrow>fs. FIELD_WEIGHTS f)"
  using assms
proof (induction fs)
  case Nil
  then show ?case by simp
next
  case (Cons p fs)
  obtain f s where p: "p = (f, s)" by (cases p)
  from Cons.prems p have "f \<in> set fieldNames" "0 \<le> s" "s \<le> 1" by auto
  from term_bounds(2)[OF this] Cons.IH Cons.prems show ?case by (simp add: p)
qed

lemma weightedSumFrom_drift:
  assumes "\<forall>(f, s) \<in> set fs. f \<in> set fieldNames \<and> 0 \<le> s \<and> s \<le> 1" "0 \<le> a"
    "a + (\<Sum>(f, s)\<leftarrow>fs. fmul s (FIELD_WEIGHTS f)) + of_nat (length fs) * halfUlp < 32"
  shows "weightedSumFrom a fs \<le>
           a + (\<Sum>(f, s)\<leftarrow>fs. fmul s (FIELD_WEIGHTS f)) + of_nat (length fs) * halfUlp \<and>
         a + (\<Sum>(f, s)\<leftarrow>fs. fmul s (FIELD_WEIGHTS f)) - of_nat (length fs) * halfUlp \<le>
           weightedSumFrom a fs"
  using assms
proof (induction fs arbitrary: a)
  case Nil
  then show ?case by simp
next
  case (Cons p fs)
  obtain f s where p: "p = (f, s)" by (cases p)
  let ?w = "fmul s (FIELD_WEIGHTS f)"
  let ?r = "\<Sum>(f, s)\<leftarrow>fs. fmul s (FIELD_WEIGHTS f)"
  let ?n = "rat_of_nat (length fs) * halfUlp"
  from Cons.prems(1) p have f: "f \<in> set fieldNames" "0 \<le> s" "s \<le> 1"
    and fs: "\<forall>(f, s) \<in> set fs. f \<in> set fieldNames \<and> 0 \<le> s \<and> s \<le> 1"
    by auto
  note r = scores_nonneg[OF fs]
  note w = term_bounds[OF f]
  have n: "0 \<le> ?n" using halfUlp_pos by simp
  have sum: "(\<Sum>(f, s)\<leftarrow>p # fs. fmul s (FIELD_WEIGHTS f)) = ?w + ?r" by (simp add: p)
  have len: "rat_of_nat (length (p # fs)) * halfUlp = ?n + halfUlp" by (simp add: algebra_simps)
  have pre: "a + (?w + ?r) + (?n + halfUlp) < 32" using Cons.prems(3) unfolding sum len .
  have nn: "0 \<le> a + ?w" using Cons.prems(2) w(1) by simp
  have lt: "a + ?w < 32" using pre r n halfUlp_pos by linarith
  note e = fadd_error[OF nn lt]
  have m: "fadd a ?w + ?r + ?n < 32" using e(1) pre by linarith
  from Cons.IH[OF fs e(3) m]
  have ih: "weightedSumFrom (fadd a ?w) fs \<le> fadd a ?w + ?r + ?n"
    "fadd a ?w + ?r - ?n \<le> weightedSumFrom (fadd a ?w) fs" by simp_all
  have t: "weightedSumFrom a (p # fs) = weightedSumFrom (fadd a ?w) fs" by (simp add: p)
  show ?case unfolding t sum len using ih e by (intro conjI) linarith+
qed

lemma sums_equal_when_all_one:
  assumes "\<forall>(f, s) \<in> set fs. f \<in> set fieldNames \<and> s = 1"
  shows "weightedSumFrom a fs = totalWeightFrom a fs"
  using assms
proof (induction fs arbitrary: a)
  case Nil
  then show ?case by simp
next
  case (Cons p fs)
  obtain f s where p: "p = (f, s)" by (cases p)
  with Cons.prems have "f \<in> set fieldNames" "s = 1" by auto
  with Cons.IH Cons.prems show ?case by (simp add: p fmul_one_weight)
qed

lemma sumFrom_append:
  "totalWeightFrom a (xs @ ys) = totalWeightFrom (totalWeightFrom a xs) ys"
  "weightedSumFrom a (xs @ ys) = weightedSumFrom (weightedSumFrom a xs) ys"
  by (induction xs arbitrary: a; auto)+

lemma totalWeightFrom_nonneg:
  assumes "\<forall>(f, s) \<in> set fs. f \<in> set fieldNames" "0 \<le> a"
  shows "0 \<le> totalWeightFrom a fs"
  using assms
proof (induction fs arbitrary: a)
  case Nil
  then show ?case by simp
next
  case (Cons p fs)
  obtain f s where p: "p = (f, s)" by (cases p)
  with Cons.prems have f: "f \<in> set fieldNames" by auto
  have "0 \<le> a + FIELD_WEIGHTS f" using Cons.prems(2) weight_facts(1)[OF f] by simp
  then have "0 \<le> fadd a (FIELD_WEIGHTS f)" unfolding fadd_def by (rule roundDouble_nonneg)
  with Cons.IH Cons.prems(1) show ?case by (simp add: p)
qed

lemma weightedSumFrom_nonneg:
  assumes "\<forall>(f, s) \<in> set fs. f \<in> set fieldNames \<and> 0 \<le> s \<and> s \<le> 1" "0 \<le> a"
  shows "0 \<le> weightedSumFrom a fs"
  using assms
proof (induction fs arbitrary: a)
  case Nil
  then show ?case by simp
next
  case (Cons p fs)
  obtain f s where p: "p = (f, s)" by (cases p)
  with Cons.prems have f: "f \<in> set fieldNames" "0 \<le> s" "s \<le> 1" by auto
  have "0 \<le> a + fmul s (FIELD_WEIGHTS f)" using Cons.prems(2) term_bounds(1)[OF f] by simp
  then have "0 \<le> fadd a (fmul s (FIELD_WEIGHTS f))" unfolding fadd_def by (rule roundDouble_nonneg)
  with Cons.IH Cons.prems(1) show ?case by (simp add: p)
qed

lemma gap_unit01: "s = 1 \<or> 0 \<le> s \<and> s \<le> 1 - 1 / 2 ^ 34 \<Longrightarrow> 0 \<le> s \<and> s \<le> (1::rat)"
proof -
  assume a: "s = 1 \<or> 0 \<le> s \<and> s \<le> 1 - 1 / 2 ^ 34"
  have "(1::rat) - 1 / 2 ^ 34 \<le> 1" by simp
  with a show ?thesis by auto
qed

lemma deficit_sum:
  assumes "\<forall>(f, s) \<in> set fs. f \<in> set fieldNames \<and> (s = 1 \<or> 0 \<le> s \<and> s \<le> 1 - 1 / 2 ^ 34)"
    and "\<exists>(f, s) \<in> set fs. s \<noteq> 1"
  shows "1 / 5 / 2 ^ 34 - halfUlp \<le>
         (\<Sum>(f, s)\<leftarrow>fs. FIELD_WEIGHTS f) - (\<Sum>(f, s)\<leftarrow>fs. fmul s (FIELD_WEIGHTS f))"
  using assms
proof (induction fs)
  case Nil
  then show ?case by simp
next
  case (Cons p fs)
  obtain f s where p: "p = (f, s)" by (cases p)
  from Cons.prems(1) p have f: "f \<in> set fieldNames" and s: "s = 1 \<or> 0 \<le> s \<and> s \<le> 1 - 1 / 2 ^ 34"
    and fs: "\<forall>(f, s) \<in> set fs. f \<in> set fieldNames \<and> (s = 1 \<or> 0 \<le> s \<and> s \<le> 1 - 1 / 2 ^ 34)"
    by auto
  from gap_unit01[OF s] have s01: "0 \<le> s" "s \<le> 1" by simp_all
  have fs01: "\<forall>(f, s) \<in> set fs. f \<in> set fieldNames \<and> 0 \<le> s \<and> s \<le> 1"
    using fs gap_unit01 by blast
  let ?W = "\<Sum>(f, s)\<leftarrow>fs. FIELD_WEIGHTS f" and ?T = "\<Sum>(f, s)\<leftarrow>fs. fmul s (FIELD_WEIGHTS f)"
  let ?w = "FIELD_WEIGHTS f" and ?t = "fmul s (FIELD_WEIGHTS f)"
  note t = term_bounds[OF f s01]
  note rest = scores_le_weights[OF fs01]
  have sum: "(\<Sum>(f, s)\<leftarrow>p # fs. FIELD_WEIGHTS f) = ?w + ?W"
    "(\<Sum>(f, s)\<leftarrow>p # fs. fmul s (FIELD_WEIGHTS f)) = ?t + ?T" by (simp_all add: p)
  show ?case
  proof (cases "s = 1")
    case True
    with Cons.prems(2) p have "\<exists>(f, s) \<in> set fs. s \<noteq> 1" by auto
    from Cons.IH[OF fs this] t(2) show ?thesis unfolding sum by linarith
  next
    case False
    with s have g: "1 / 2 ^ 34 \<le> 1 - s" by simp
    have "1 / 5 * (1 / 2 ^ 34) \<le> ?w * (1 - s)"
      using weight_facts(1)[OF f] g by (intro mult_mono) simp_all
    then have "1 / 5 / 2 ^ 34 \<le> ?w * (1 - s)" by simp
    with t(3) rest show ?thesis unfolding sum by linarith
  qed
qed

lemma ratio_mono:
  fixes pre post :: "(string \<times> double) list"
  assumes ok: "\<forall>(n, s) \<in> set (pre @ post).
                 n \<in> set fieldNames \<and> (s = 1 \<or> 0 \<le> s \<and> s \<le> 1 - 1 / 2 ^ 34)"
    and f: "f \<in> set fieldNames"
    and cap: "(\<Sum>(n, s)\<leftarrow>pre @ (f, 1) # post. FIELD_WEIGHTS n) \<le> 25"
    and len: "length (pre @ post) \<le> 5"
  shows "(if 0 < totalWeight (pre @ post)
          then fdiv (weightedSum (pre @ post)) (totalWeight (pre @ post)) else 0)
       \<le> (if 0 < totalWeight (pre @ (f, 1) # post)
          then fdiv (weightedSum (pre @ (f, 1) # post)) (totalWeight (pre @ (f, 1) # post)) else 0)"
proof -
  define wf where "wf = FIELD_WEIGHTS f"
  define Wp where "Wp = (\<Sum>(n, s)\<leftarrow>pre. FIELD_WEIGHTS n)"
  define Wq where "Wq = (\<Sum>(n, s)\<leftarrow>post. FIELD_WEIGHTS n)"
  define Tp where "Tp = (\<Sum>(n, s)\<leftarrow>pre. fmul s (FIELD_WEIGHTS n))"
  define Tq where "Tq = (\<Sum>(n, s)\<leftarrow>post. fmul s (FIELD_WEIGHTS n))"
  define np where "np = rat_of_nat (length pre) * halfUlp"
  define nq where "nq = rat_of_nat (length post) * halfUlp"
  define W0 where "W0 = totalWeightFrom 0 pre"
  define S0 where "S0 = weightedSumFrom 0 pre"
  define W1 where "W1 = fadd W0 wf"
  define S1 where "S1 = fadd S0 wf"
  define W where "W = totalWeightFrom W0 post"
  define S where "S = weightedSumFrom S0 post"
  define W' where "W' = totalWeightFrom W1 post"
  define S' where "S' = weightedSumFrom S1 post"
  note h = halfUlp_pos
  have hs: "halfUlp \<le> 1 / 100000" by (simp add: halfUlp_def)
  have ok1: "n \<in> set fieldNames \<and> 0 \<le> s \<and> s \<le> 1" if "(n, s) \<in> set (pre @ post)" for n s
    using ok that gap_unit01[of s] by blast
  have okp: "\<forall>(n, s) \<in> set pre. n \<in> set fieldNames \<and> 0 \<le> s \<and> s \<le> 1"
    and okq: "\<forall>(n, s) \<in> set post. n \<in> set fieldNames \<and> 0 \<le> s \<and> s \<le> 1"
    using ok1 by auto
  then have nmp: "\<forall>(n, s) \<in> set pre. n \<in> set fieldNames"
    and nmq: "\<forall>(n, s) \<in> set post. n \<in> set fieldNames" by auto
  note w = weight_facts[OF f, folded wf_def]
  have cap': "Wp + wf + Wq \<le> 25" using cap by (simp add: Wp_def Wq_def wf_def)
  have Wp0: "0 \<le> Wp" unfolding Wp_def by (rule weights_nonneg[OF nmp])
  have Wq0: "0 \<le> Wq" unfolding Wq_def by (rule weights_nonneg[OF nmq])
  have Tp0: "0 \<le> Tp" unfolding Tp_def by (rule scores_nonneg[OF okp])
  have Tq0: "0 \<le> Tq" unfolding Tq_def by (rule scores_nonneg[OF okq])
  have TpWp: "Tp \<le> Wp" unfolding Tp_def Wp_def by (rule scores_le_weights[OF okp])
  have TqWq: "Tq \<le> Wq" unfolding Tq_def Wq_def by (rule scores_le_weights[OF okq])
  have "rat_of_nat (length pre) + rat_of_nat (length post) \<le> 5"
    using len by (simp flip: of_nat_add)
  then have "(rat_of_nat (length pre) + rat_of_nat (length post)) * halfUlp \<le> 5 * halfUlp"
    using h by (intro mult_right_mono) simp_all
  then have n5: "np + nq \<le> 5 * halfUlp" by (simp add: np_def nq_def algebra_simps)
  have np0: "0 \<le> np" and nq0: "0 \<le> nq" using h by (simp_all add: np_def nq_def)
  \<comment> \<open>the sums over the fields before \<open>f\<close>\<close>
  have "0 + Wp + np < 32" using cap' w Wq0 n5 nq0 hs by linarith
  from totalWeightFrom_drift[OF nmp order_refl this[unfolded Wp_def np_def]]
  have dW0: "W0 \<le> Wp + np" "Wp - np \<le> W0" by (simp_all add: W0_def Wp_def np_def)
  have "0 + Tp + np < 32" using cap' w Wq0 n5 nq0 hs TpWp by linarith
  from weightedSumFrom_drift[OF okp order_refl this[unfolded Tp_def np_def]]
  have dS0: "S0 \<le> Tp + np" "Tp - np \<le> S0" by (simp_all add: S0_def Tp_def np_def)
  have W00: "0 \<le> W0" unfolding W0_def by (rule totalWeightFrom_nonneg[OF nmp order_refl])
  have S00: "0 \<le> S0" unfolding S0_def by (rule weightedSumFrom_nonneg[OF okp order_refl])
  \<comment> \<open>the step of the added field\<close>
  have "0 \<le> W0 + wf" "W0 + wf < 32" using W00 w dW0 cap' Wq0 n5 nq0 hs by linarith+
  note eW = fadd_error[OF this, folded W1_def]
  have "0 \<le> S0 + wf" "S0 + wf < 32" using S00 w dS0 TpWp cap' Wq0 n5 nq0 hs by linarith+
  note eS = fadd_error[OF this, folded S1_def]
  \<comment> \<open>the sums over the fields after \<open>f\<close>, from both starting points\<close>
  have "W0 + Wq + nq < 32" using dW0 cap' w n5 hs by linarith
  from totalWeightFrom_drift[OF nmq W00 this[unfolded Wq_def nq_def]]
  have dW: "W \<le> W0 + Wq + nq" "W0 + Wq - nq \<le> W" by (simp_all add: W_def Wq_def nq_def)
  have "W1 + Wq + nq < 32" using eW(1) dW0 cap' n5 hs by linarith
  from totalWeightFrom_drift[OF nmq eW(3) this[unfolded Wq_def nq_def]]
  have dW': "W' \<le> W1 + Wq + nq" "W1 + Wq - nq \<le> W'" by (simp_all add: W'_def Wq_def nq_def)
  have "S0 + Tq + nq < 32" using dS0 TpWp TqWq cap' w n5 hs by linarith
  from weightedSumFrom_drift[OF okq S00 this[unfolded Tq_def nq_def]]
  have dS: "S \<le> S0 + Tq + nq" "S0 + Tq - nq \<le> S" by (simp_all add: S_def Tq_def nq_def)
  have "S1 + Tq + nq < 32" using eS(1) dS0 TpWp TqWq cap' n5 hs by linarith
  from weightedSumFrom_drift[OF okq eS(3) this[unfolded Tq_def nq_def]]
  have dS': "S' \<le> S1 + Tq + nq" "S1 + Tq - nq \<le> S'" by (simp_all add: S'_def Tq_def nq_def)
  have W0': "0 \<le> W" unfolding W_def by (rule totalWeightFrom_nonneg[OF nmq W00])
  have S0': "0 \<le> S'" unfolding S'_def by (rule weightedSumFrom_nonneg[OF okq eS(3)])
  have Snn: "0 \<le> S" unfolding S_def by (rule weightedSumFrom_nonneg[OF okq S00])
  \<comment> \<open>what the statement speaks about\<close>
  have tw: "totalWeight (pre @ post) = W" "weightedSum (pre @ post) = S"
    by (simp_all add: totalWeight_def weightedSum_def sumFrom_append W_def S_def W0_def S0_def)
  have tw': "totalWeight (pre @ (f, 1) # post) = W'" "weightedSum (pre @ (f, 1) # post) = S'"
    by (simp_all add: totalWeight_def weightedSum_def sumFrom_append W'_def S'_def W1_def S1_def
          W0_def S0_def wf_def fmul_one_weight[OF f])
  \<comment> \<open>the consequences\<close>
  have gain: "W + 19 / 100 \<le> W'" using dW dW' eW w n5 np0 hs by linarith
  have drift: "(W' - S') \<le> (W - S) + 22 * halfUlp" using dW dW' dS dS' eW eS n5 np0 by linarith
  have Wle: "W \<le> 25" using dW dW0 cap' w n5 hs by linarith
  have W'pos: "0 < W'" using gain W0' by linarith
  have after0: "0 \<le> fdiv S' W'"
    unfolding fdiv_def using S0' W'pos by (intro roundDouble_nonneg) simp
  show ?thesis
  proof (cases "0 < W")
    case False
    with after0 W'pos show ?thesis by (simp add: tw tw')
  next
    case True
    have "S / W \<le> S' / W'"
    proof (cases "\<exists>(n, s) \<in> set (pre @ post). s \<noteq> 1")
      case False
      with ok have one: "\<forall>(n, s) \<in> set (pre @ post). n \<in> set fieldNames \<and> s = 1" by auto
      with f have one': "\<forall>(n, s) \<in> set (pre @ (f, 1) # post). n \<in> set fieldNames \<and> s = 1" by auto
      from sums_equal_when_all_one[OF one, of 0] have "S = W"
        by (simp add: tw[symmetric] totalWeight_def weightedSum_def)
      moreover from sums_equal_when_all_one[OF one', of 0] have "S' = W'"
        by (simp add: tw'[symmetric] totalWeight_def weightedSum_def)
      ultimately show ?thesis using True W'pos by simp
    next
      case True
      from deficit_sum[OF ok True]
      have "1 / 5 / 2 ^ 34 - halfUlp \<le> (Wp + Wq) - (Tp + Tq)"
        by (simp add: Wp_def Wq_def Tp_def Tq_def)
      then have E: "1 / 5 / 2 ^ 34 - 11 * halfUlp \<le> W - S"
        using dW dW0 dS dS0 n5 by linarith
      have Epos: "0 \<le> 1 / 5 / 2 ^ 34 - 11 * halfUlp" by (simp add: halfUlp_def)
      have "(1 / 5 / 2 ^ 34 - 11 * halfUlp) * (19 / 100) \<le> (W - S) * (W' - W)"
        using E Epos gain by (intro mult_mono) linarith+
      moreover have "550 * halfUlp \<le> (1 / 5 / 2 ^ 34 - 11 * halfUlp) * (19 / 100)"
        by (simp add: halfUlp_def)
      ultimately have a: "550 * halfUlp \<le> (W - S) * (W' - W)" by linarith
      have "(W' - S') * W \<le> ((W - S) + 22 * halfUlp) * W"
        using drift W0' by (intro mult_right_mono) simp_all
      also have "\<dots> = (W - S) * W + 22 * halfUlp * W" by (simp add: algebra_simps)
      also have "22 * halfUlp * W \<le> 22 * halfUlp * 25"
        using Wle h by (intro mult_left_mono) simp_all
      finally have "(W' - S') * W \<le> (W - S) * W + 550 * halfUlp" by simp
      with a have "(W' - S') * W \<le> (W - S) * W + (W - S) * (W' - W)" by linarith
      then have "S * W' \<le> S' * W" by (simp add: algebra_simps)
      with \<open>0 < W\<close> W'pos show ?thesis by (simp add: field_simps)
    qed
    moreover have "0 \<le> S / W" using Snn \<open>0 < W\<close> by simp
    ultimately have "fdiv S W \<le> fdiv S' W'" unfolding fdiv_def by (intro roundDouble_mono)
    with \<open>0 < W\<close> W'pos show ?thesis by (simp add: tw tw')
  qed
qed

lemma splitWs_length: "length (splitWs s) \<le> length s + 1"
proof (induction s rule: splitWs.induct)
  case (1 s)
  show ?case
  proof (cases "dropWhile (\<lambda>c. \<not> isSpace c) s")
    case Nil
    have "splitWs s = [s]" by (subst splitWs.simps) (simp only: Nil list.case)
    then show ?thesis by simp
  next
    case (Cons x rest)
    have eq: "splitWs s = takeWhile (\<lambda>c. \<not> isSpace c) s # splitWs (dropWhile isSpace rest)"
      by (subst splitWs.simps) (simp only: Cons list.case)
    have "length (dropWhile isSpace rest) \<le> length rest" by (rule length_dropWhile_le)
    moreover have "length rest < length (dropWhile (\<lambda>c. \<not> isSpace c) s)" by (simp add: Cons)
    moreover have "length (dropWhile (\<lambda>c. \<not> isSpace c) s) \<le> length s" by (rule length_dropWhile_le)
    ultimately have "length (dropWhile isSpace rest) + 1 \<le> length s" by linarith
    with "1.IH"[OF Cons] show ?thesis by (simp add: eq)
  qed
qed

lemma splitWs_nonempty: "splitWs s \<noteq> []"
  by (subst splitWs.simps) (simp split: list.splits)

lemma gap_consts:
  "roundDouble (1 - 1 / 2 ^ 32) = 1 - 1 / 2 ^ 32"
  "fadd (fmul 1 (roundDouble (7 / 10))) (fmul 1 (roundDouble (3 / 10))) = 1"
  "fadd (fmul (1 - 1 / 2 ^ 32) (roundDouble (7 / 10))) (fmul 1 (roundDouble (3 / 10))) \<le> 1 - 1 / 2 ^ 34"
  "fadd (fmul 1 (roundDouble (7 / 10))) (fmul (1 - 1 / 2 ^ 32) (roundDouble (3 / 10))) \<le> 1 - 1 / 2 ^ 34"
  "0 \<le> roundDouble (7 / 10)" "0 \<le> roundDouble (3 / 10)"
  by code_simp+

lemma stringSimilarity_cases:
  "stringSimilarity a b = 0 \<or>
   (\<exists>i u. 0 < u \<and> i \<le> u \<and> u \<le> length a + length b + 2 \<and>
          stringSimilarity a b = fdiv (of_nat i) (of_nat u))"
proof -
  define w1 where "w1 = remdups (splitWs (toLowerCase a))"
  define w2 where "w2 = remdups (splitWs (toLowerCase b))"
  define F where "F = filter (\<lambda>word. word \<in> set w2) w1"
  have i1: "length F \<le> length w1" by (simp add: F_def)
  have "distinct F" by (simp add: F_def w1_def)
  then have "card (set F) = length F" by (rule distinct_card)
  moreover have "card (set F) \<le> card (set w2)" by (rule card_mono) (auto simp: F_def)
  moreover have "card (set w2) \<le> length w2" by (rule card_length)
  ultimately have i2: "length F \<le> length w2" by linarith
  define u where "u = length w1 + length w2 - length F"
  have ui: "int (length w1) + int (length w2) - int (length F) = int u"
    using i1 by (simp add: u_def)
  have le: "length F \<le> u" using i1 i2 by (simp add: u_def)
  have "length w1 \<le> length (splitWs (toLowerCase a))" unfolding w1_def by (rule length_remdups_leq)
  also have "\<dots> \<le> length a + 1" using splitWs_length[of "toLowerCase a"] by (simp add: toLowerCase_def)
  finally have l1: "length w1 \<le> length a + 1" .
  have "length w2 \<le> length (splitWs (toLowerCase b))" unfolding w2_def by (rule length_remdups_leq)
  also have "\<dots> \<le> length b + 1" using splitWs_length[of "toLowerCase b"] by (simp add: toLowerCase_def)
  finally have l2: "length w2 \<le> length b + 1" .
  have ub: "u \<le> length a + length b + 2" using l1 l2 by (simp add: u_def)
  have "stringSimilarity a b =
          (if a = [] \<or> b = [] then 0
           else if int u > 0 then fdiv (of_nat (length F)) (of_int (int u)) else 0)"
    unfolding ui[symmetric] by (simp add: stringSimilarity_def Let_def F_def w1_def w2_def)
  then have "stringSimilarity a b = 0 \<or>
             (0 < u \<and> stringSimilarity a b = fdiv (of_nat (length F)) (of_nat u))"
    by (auto split: if_splits)
  with le ub show ?thesis by blast
qed

lemma fdiv_ratio_gap:
  assumes "0 < u" "i \<le> u" "u \<le> 2 ^ 32"
  shows "fdiv (of_nat i) (of_nat u) = 1 \<or>
         0 \<le> fdiv (of_nat i) (of_nat u) \<and> fdiv (of_nat i) (of_nat u) \<le> 1 - 1 / 2 ^ 32"
proof (cases "i = u")
  case True
  with assms(1) show ?thesis by (simp add: fdiv_def roundDouble_1)
next
  case False
  with assms have lt: "i + 1 \<le> u" by simp
  let ?q = "rat_of_nat i / rat_of_nat u"
  have upos: "0 < rat_of_nat u" using assms(1) by simp
  have q0: "0 \<le> ?q" by simp
  have "rat_of_nat (i + 1) \<le> rat_of_nat u" using lt by (simp only: of_nat_le_iff)
  then have "rat_of_nat i \<le> rat_of_nat u - 1" by simp
  then have "?q \<le> (rat_of_nat u - 1) / rat_of_nat u" using upos by (simp add: divide_right_mono)
  also have "\<dots> = 1 - 1 / rat_of_nat u" using upos by (simp add: field_simps)
  also have "\<dots> \<le> 1 - 1 / 2 ^ 32"
  proof -
    have "rat_of_nat u \<le> rat_of_nat (2 ^ 32)" using assms(3) by (simp only: of_nat_le_iff)
    then have "rat_of_nat u \<le> 2 ^ 32" by simp
    then have "1 / 2 ^ 32 \<le> 1 / rat_of_nat u" using upos by (intro divide_left_mono) simp_all
    then show ?thesis by simp
  qed
  finally have q1: "?q \<le> 1 - 1 / 2 ^ 32" .
  have "roundDouble ?q \<le> roundDouble (1 - 1 / 2 ^ 32)" using q0 q1 by (rule roundDouble_mono)
  then have "fdiv (of_nat i) (of_nat u) \<le> 1 - 1 / 2 ^ 32" by (simp only: fdiv_def gap_consts)
  moreover have "0 \<le> fdiv (of_nat i) (of_nat u)" unfolding fdiv_def using q0 by (rule roundDouble_nonneg)
  ultimately show ?thesis by simp
qed

lemma stringSimilarity_gap:
  assumes "length a < 2 ^ 31" "length b < 2 ^ 31"
  shows "stringSimilarity a b = 1 \<or>
         0 \<le> stringSimilarity a b \<and> stringSimilarity a b \<le> 1 - 1 / 2 ^ 32"
proof -
  from stringSimilarity_cases[of a b] show ?thesis
  proof
    assume "stringSimilarity a b = 0"
    then show ?thesis by simp
  next
    assume "\<exists>i u. 0 < u \<and> i \<le> u \<and> u \<le> length a + length b + 2 \<and>
                   stringSimilarity a b = fdiv (of_nat i) (of_nat u)"
    then obtain i u where iu: "0 < u" "i \<le> u" "u \<le> length a + length b + 2"
      "stringSimilarity a b = fdiv (of_nat i) (of_nat u)" by blast
    have "length a + 1 \<le> 2 ^ 31" "length b + 1 \<le> 2 ^ 31" using assms by simp_all
    then have "length a + length b + 2 \<le> 2 ^ 31 + 2 ^ 31" by linarith
    then have "u \<le> 2 ^ 32" using iu(3) by simp
    from fdiv_ratio_gap[OF iu(1,2) this] show ?thesis by (simp only: iu(4))
  qed
qed

lemma stringSimilarity_same:
  assumes "a \<noteq> []"
  shows "stringSimilarity a a = 1"
proof -
  define w where "w = remdups (splitWs (toLowerCase a))"
  have "w \<noteq> []" by (simp add: w_def splitWs_nonempty)
  then have l: "0 < length w" by simp
  have f: "filter (\<lambda>word. word \<in> set w) w = w" by simp
  have "stringSimilarity a a = fdiv (of_nat (length w)) (of_int (int (length w)))"
    using assms l by (simp add: stringSimilarity_def Let_def w_def[symmetric] f)
  also have "\<dots> = 1" using l by (simp add: fdiv_def roundDouble_1)
  finally show ?thesis .
qed

lemma fmul_mono: "0 \<le> a \<Longrightarrow> a \<le> b \<Longrightarrow> 0 \<le> c \<Longrightarrow> fmul a c \<le> fmul b c"
  unfolding fmul_def by (intro roundDouble_mono mult_nonneg_nonneg mult_right_mono)

lemma fmul_nonneg: "0 \<le> a \<Longrightarrow> 0 \<le> c \<Longrightarrow> 0 \<le> fmul a c"
  unfolding fmul_def by (intro roundDouble_nonneg mult_nonneg_nonneg)

lemma fadd_mono: "0 \<le> a \<Longrightarrow> a \<le> b \<Longrightarrow> 0 \<le> c \<Longrightarrow> c \<le> d \<Longrightarrow> fadd a c \<le> fadd b d"
  unfolding fadd_def by (intro roundDouble_mono add_nonneg_nonneg add_mono)

lemma fadd_nonneg: "0 \<le> a \<Longrightarrow> 0 \<le> c \<Longrightarrow> 0 \<le> fadd a c"
  unfolding fadd_def by (intro roundDouble_nonneg add_nonneg_nonneg)

lemma gap32_34: "s = 1 \<or> 0 \<le> s \<and> s \<le> 1 - 1 / 2 ^ 32 \<Longrightarrow> s = 1 \<or> 0 \<le> s \<and> s \<le> (1::rat) - 1 / 2 ^ 34"
proof -
  assume a: "s = 1 \<or> 0 \<le> s \<and> s \<le> 1 - 1 / 2 ^ 32"
  have "(1::rat) - 1 / 2 ^ 32 \<le> 1 - 1 / 2 ^ 34" by simp
  with a show ?thesis by auto
qed

lemma gap32_unit: "s = 1 \<or> 0 \<le> s \<and> s \<le> 1 - 1 / 2 ^ 32 \<Longrightarrow> 0 \<le> s \<and> s \<le> (1::rat)"
proof -
  assume a: "s = 1 \<or> 0 \<le> s \<and> s \<le> 1 - 1 / 2 ^ 32"
  have "(1::rat) - 1 / 2 ^ 32 \<le> 1" by simp
  with a show ?thesis by auto
qed

lemma mix_gap:
  assumes a: "a = 1 \<or> 0 \<le> a \<and> a \<le> 1 - 1 / 2 ^ 32"
    and b: "b = 1 \<or> 0 \<le> b \<and> b \<le> 1 - 1 / 2 ^ 32"
  shows "fadd (fmul a (roundDouble (7 / 10))) (fmul b (roundDouble (3 / 10))) = 1 \<or>
         0 \<le> fadd (fmul a (roundDouble (7 / 10))) (fmul b (roundDouble (3 / 10))) \<and>
         fadd (fmul a (roundDouble (7 / 10))) (fmul b (roundDouble (3 / 10))) \<le> 1 - 1 / 2 ^ 34"
proof -
  let ?c7 = "roundDouble (7 / 10)" and ?c3 = "roundDouble (3 / 10)"
  note c = gap_consts(5,6)
  from gap32_unit[OF a] gap32_unit[OF b] have u: "0 \<le> a" "a \<le> 1" "0 \<le> b" "b \<le> 1" by simp_all
  have nn: "0 \<le> fadd (fmul a ?c7) (fmul b ?c3)"
    using u c by (intro fadd_nonneg fmul_nonneg)
  show ?thesis
  proof (cases "a = 1 \<and> b = 1")
    case True
    then have "fadd (fmul a ?c7) (fmul b ?c3) = 1" by (simp only: gap_consts(2))
    then show ?thesis by (rule disjI1)
  next
    case False
    have "fadd (fmul a ?c7) (fmul b ?c3) \<le> 1 - 1 / 2 ^ 34"
    proof (cases "a = 1")
      case True
      with False b have b': "b \<le> 1 - 1 / 2 ^ 32" by auto
      have "fadd (fmul a ?c7) (fmul b ?c3) \<le> fadd (fmul 1 ?c7) (fmul (1 - 1 / 2 ^ 32) ?c3)"
        using u c b' by (intro fadd_mono fmul_mono fmul_nonneg) simp_all
      with gap_consts(4) show ?thesis by linarith
    next
      case False
      with a have a': "a \<le> 1 - 1 / 2 ^ 32" by auto
      have "fadd (fmul a ?c7) (fmul b ?c3) \<le> fadd (fmul (1 - 1 / 2 ^ 32) ?c7) (fmul 1 ?c3)"
        using u c a' by (intro fadd_mono fmul_mono fmul_nonneg) simp_all
      with gap_consts(3) show ?thesis by linarith
    qed
    with nn show ?thesis by simp
  qed
qed

lemma length_toLowerCase: "length (toLowerCase s) = length s"
  by (simp add: toLowerCase_def)

lemma toLowerCase_Nil_iff: "toLowerCase s = [] \<longleftrightarrow> s = []"
  by (simp add: toLowerCase_def)

lemma compareAuthors_gap:
  assumes "list_all (\<lambda>a. length (n_family a) < 2 ^ 31) xs"
    and "list_all (\<lambda>a. length (n_family a) < 2 ^ 31) ys"
  shows "compareAuthors xs ys = 1 \<or>
         0 \<le> compareAuthors xs ys \<and> compareAuthors xs ys \<le> 1 - 1 / 2 ^ 34"
proof (cases "xs = [] \<or> ys = []")
  case True
  then show ?thesis by (auto simp: compareAuthors_def)
next
  case False
  then have ne: "xs \<noteq> []" "ys \<noteq> []" by simp_all
  then have mem: "hd xs \<in> set xs" "last xs \<in> set xs" "hd ys \<in> set ys" "last ys \<in> set ys"
    by simp_all
  with assms have lim: "length (n_family (hd xs)) < 2 ^ 31" "length (n_family (last xs)) < 2 ^ 31"
    "length (n_family (hd ys)) < 2 ^ 31" "length (n_family (last ys)) < 2 ^ 31"
    unfolding list_all_iff by blast+
  define a where "a = stringSimilarity (toLowerCase (n_family (hd xs))) (toLowerCase (n_family (hd ys)))"
  define b where "b = stringSimilarity (toLowerCase (n_family (last xs))) (toLowerCase (n_family (last ys)))"
  have a: "a = 1 \<or> 0 \<le> a \<and> a \<le> 1 - 1 / 2 ^ 32"
    unfolding a_def by (rule stringSimilarity_gap) (simp_all only: length_toLowerCase lim)
  have b: "b = 1 \<or> 0 \<le> b \<and> b \<le> 1 - 1 / 2 ^ 32"
    unfolding b_def by (rule stringSimilarity_gap) (simp_all only: length_toLowerCase lim)
  have "compareAuthors xs ys = 0 \<or> compareAuthors xs ys = a \<or>
        compareAuthors xs ys = fadd (fmul a (roundDouble (7 / 10))) (fmul b (roundDouble (3 / 10)))"
    by (simp add: compareAuthors_def Let_def a_def b_def)
  then show ?thesis
  proof (elim disjE)
    assume "compareAuthors xs ys = 0"
    then show ?thesis by simp
  next
    assume "compareAuthors xs ys = a"
    with gap32_34[OF a] show ?thesis by simp
  next
    assume "compareAuthors xs ys = fadd (fmul a (roundDouble (7 / 10))) (fmul b (roundDouble (3 / 10)))"
    with mix_gap[OF a b] show ?thesis by simp
  qed
qed

lemma compareAuthors_match:
  assumes "fieldMatches ''authors'' x v"
  shows "compareAuthors (n_authors x) (n_authors v) = 1"
proof -
  let ?xs = "n_authors x" and ?ys = "n_authors v"
  from assms have ne: "?xs \<noteq> []" "?ys \<noteq> []"
    and f1: "n_family (hd ?xs) \<noteq> []"
    and e1: "toLowerCase (n_family (hd ?xs)) = toLowerCase (n_family (hd ?ys))"
    and l: "length ?xs \<le> 1 \<or> length ?ys \<le> 1 \<or>
            n_family (last ?xs) \<noteq> [] \<and>
            toLowerCase (n_family (last ?xs)) = toLowerCase (n_family (last ?ys))"
    by (simp_all add: fieldMatches_def)
  have n1: "toLowerCase (n_family (hd ?xs)) \<noteq> []" using f1 by (simp add: toLowerCase_Nil_iff)
  have s1: "stringSimilarity (toLowerCase (n_family (hd ?xs))) (toLowerCase (n_family (hd ?ys))) = 1"
    unfolding e1[symmetric] using n1 by (rule stringSimilarity_same)
  show ?thesis
  proof (cases "length ?xs > 1 \<and> length ?ys > 1")
    case False
    with ne n1 e1 s1 show ?thesis by (auto simp: compareAuthors_def Let_def)
  next
    case True
    with l have f2: "n_family (last ?xs) \<noteq> []"
      and e2: "toLowerCase (n_family (last ?xs)) = toLowerCase (n_family (last ?ys))" by auto
    have n2: "toLowerCase (n_family (last ?xs)) \<noteq> []" using f2 by (simp add: toLowerCase_Nil_iff)
    have s2: "stringSimilarity (toLowerCase (n_family (last ?xs))) (toLowerCase (n_family (last ?ys))) = 1"
      unfolding e2[symmetric] using n2 by (rule stringSimilarity_same)
    have "compareAuthors ?xs ?ys =
            fadd (fmul 1 (roundDouble (7 / 10))) (fmul 1 (roundDouble (3 / 10)))"
      using True ne n1 e1[symmetric] s1 s2 by (simp add: compareAuthors_def Let_def)
    then show ?thesis by (simp only: gap_consts(2))
  qed
qed

lemma fieldScore_gap:
  assumes "withinStringLimit x" "withinStringLimit v"
  shows "fieldScore n x v = 1 \<or> 0 \<le> fieldScore n x v \<and> fieldScore n x v \<le> 1 - 1 / 2 ^ 34"
proof -
  from assms have lim: "length (n_title x) < 2 ^ 31" "length (n_title v) < 2 ^ 31"
    "length (n_journal x) < 2 ^ 31" "length (n_journal v) < 2 ^ 31"
    "list_all (\<lambda>a. length (n_family a) < 2 ^ 31) (n_authors x)"
    "list_all (\<lambda>a. length (n_family a) < 2 ^ 31) (n_authors v)"
    by (simp_all add: withinStringLimit_def)
  have t: "stringSimilarity (toLowerCase (n_title x)) (toLowerCase (n_title v)) = 1 \<or>
           0 \<le> stringSimilarity (toLowerCase (n_title x)) (toLowerCase (n_title v)) \<and>
           stringSimilarity (toLowerCase (n_title x)) (toLowerCase (n_title v)) \<le> 1 - 1 / 2 ^ 34"
    by (rule gap32_34, rule stringSimilarity_gap) (simp_all only: length_toLowerCase lim)
  have j: "stringSimilarity (toLowerCase (n_journal x)) (toLowerCase (n_journal v)) = 1 \<or>
           0 \<le> stringSimilarity (toLowerCase (n_journal x)) (toLowerCase (n_journal v)) \<and>
           stringSimilarity (toLowerCase (n_journal x)) (toLowerCase (n_journal v)) \<le> 1 - 1 / 2 ^ 34"
    by (rule gap32_34, rule stringSimilarity_gap) (simp_all only: length_toLowerCase lim)
  note a = compareAuthors_gap[OF lim(5,6)]
  have z: "(0::rat) = 1 \<or> 0 \<le> (0::rat) \<and> (0::rat) \<le> 1 - 1 / 2 ^ 34" by simp
  have p: "comparePages (n_pages x) (n_pages v) = 1 \<or> comparePages (n_pages x) (n_pages v) = 0"
    by (simp add: comparePages_def)
  show ?thesis
    unfolding fieldScore_def using t j a z p by (auto split: if_splits)
qed

lemma fieldScore_match:
  assumes "fieldPresent f x" "fieldPresent f v" "fieldMatches f x v"
  shows "fieldScore f x v = 1"
proof -
  consider "f = ''title''" | "f = ''authors''" | "f = ''year''" | "f = ''journal''"
    | "f = ''volume''" | "f = ''pages''"
    using assms(1) by (auto simp: fieldPresent_def split: if_splits)
  then show ?thesis
  proof cases
    case 1
    with assms have e: "toLowerCase (n_title x) = toLowerCase (n_title v)" and ne: "n_title x \<noteq> []"
      by (simp_all add: fieldMatches_def fieldPresent_def)
    from ne have "toLowerCase (n_title x) \<noteq> []" by (simp add: toLowerCase_Nil_iff)
    from stringSimilarity_same[OF this] show ?thesis
      unfolding fieldScore_def e[symmetric] using 1 by simp
  next
    case 2
    with assms compareAuthors_match[of x v] show ?thesis by (simp add: fieldScore_def)
  next
    case 3
    with assms show ?thesis by (simp add: fieldScore_def fieldMatches_def)
  next
    case 4
    with assms have e: "toLowerCase (n_journal x) = toLowerCase (n_journal v)" and ne: "n_journal x \<noteq> []"
      by (simp_all add: fieldMatches_def fieldPresent_def)
    from ne have "toLowerCase (n_journal x) \<noteq> []" by (simp add: toLowerCase_Nil_iff)
    from stringSimilarity_same[OF this] show ?thesis
      unfolding fieldScore_def e[symmetric] using 4 by simp
  next
    case 5
    with assms show ?thesis by (simp add: fieldScore_def fieldMatches_def)
  next
    case 6
    with assms show ?thesis
      by (simp add: fieldScore_def fieldMatches_def fieldPresent_def comparePages_def)
  qed
qed

section \<open>Properties of the match score\<close>

lemma all_weights: "(\<Sum>n\<leftarrow>fieldNames. FIELD_WEIGHTS n) \<le> 25"
  by code_simp

lemma fieldBlocks_map:
  "fieldBlocks x v =
     map (\<lambda>n. (fieldPresent n x \<and> fieldPresent n v, n, fieldScore n x v)) fieldNames"
  by (simp add: fieldBlocks_def fieldNames_def fieldPresent_def fieldScore_def)

lemma foldl_scoreField:
  "acc_fieldScores (foldl scoreField acc bs) = acc_fieldScores acc @ map snd (filter fst bs)"
  "acc_totalWeight (foldl scoreField acc bs) =
     totalWeightFrom (acc_totalWeight acc) (map snd (filter fst bs))"
  "acc_weightedSum (foldl scoreField acc bs) =
     weightedSumFrom (acc_weightedSum acc) (map snd (filter fst bs))"
  by (induction bs arbitrary: acc; auto simp: scoreField_def)+

lemma fieldScores_computeMatchScore:
  "fieldScores (computeMatchScore e v) = map snd (filter fst (fieldBlocks (normalizeExtracted e) v))"
  by (simp add: computeMatchScore_def Let_def foldl_scoreField)

lemma overall_computeMatchScore:
  "overall (computeMatchScore e v) =
     (if 0 < totalWeight (fieldScores (computeMatchScore e v))
      then fdiv (weightedSum (fieldScores (computeMatchScore e v)))
                (totalWeight (fieldScores (computeMatchScore e v)))
      else 0)"
  by (simp add: computeMatchScore_def Let_def foldl_scoreField totalWeight_def weightedSum_def)

lemma comparedScores_blocks:
  "map snd (filter fst (map (\<lambda>n. (fieldPresent n x \<and> fieldPresent n v, n, fieldScore n x v)) names))
     = comparedScores names x v"
  by (induction names) (simp_all add: comparedScores_def)

lemma fieldScores_compared:
  "fieldScores (computeMatchScore e v) = comparedScores fieldNames (normalizeExtracted e) v"
  by (simp only: fieldScores_computeMatchScore fieldBlocks_map comparedScores_blocks)

lemma comparedScores_append:
  "comparedScores (as @ bs) x v = comparedScores as x v @ comparedScores bs x v"
  by (simp add: comparedScores_def)

lemma comparedScores_names:
  "(n, s) \<in> set (comparedScores names x v) \<Longrightarrow> n \<in> set names \<and> s = fieldScore n x v"
  by (auto simp: comparedScores_def)

lemma comparedScores_length: "length (comparedScores names x v) \<le> length names"
  by (simp add: comparedScores_def)

lemma fieldPresent_simps:
  "fieldPresent ''title'' x = (n_title x \<noteq> [])"
  "fieldPresent ''authors'' x = (length (n_authors x) \<noteq> 0)"
  "fieldPresent ''year'' x = truthyN (n_year x)"
  "fieldPresent ''journal'' x = (n_journal x \<noteq> [])"
  "fieldPresent ''volume'' x = truthyScalar (n_volume x)"
  "fieldPresent ''pages'' x = truthyScalar (n_pages x)"
  "n \<notin> set fieldNames \<Longrightarrow> fieldPresent n x = False"
  by (simp_all add: fieldPresent_def fieldNames_def)

lemma fieldScore_simps:
  "fieldScore ''title'' x v = stringSimilarity (toLowerCase (n_title x)) (toLowerCase (n_title v))"
  "fieldScore ''authors'' x v = compareAuthors (n_authors x) (n_authors v)"
  "fieldScore ''year'' x v = (if n_year x = n_year v then 1 else 0)"
  "fieldScore ''journal'' x v =
     stringSimilarity (toLowerCase (n_journal x)) (toLowerCase (n_journal v))"
  "fieldScore ''volume'' x v = (if String (n_volume x) = String (n_volume v) then 1 else 0)"
  "fieldScore ''pages'' x v = comparePages (n_pages x) (n_pages v)"
  "n \<notin> set fieldNames \<Longrightarrow> fieldScore n x v = 0"
  by (simp_all add: fieldScore_def fieldNames_def)

lemma agreeExcept_simps:
  "agreeExcept f x y \<Longrightarrow> ''title'' \<noteq> f \<Longrightarrow> n_title x = n_title y"
  "agreeExcept f x y \<Longrightarrow> ''authors'' \<noteq> f \<Longrightarrow> n_authors x = n_authors y"
  "agreeExcept f x y \<Longrightarrow> ''year'' \<noteq> f \<Longrightarrow> n_year x = n_year y"
  "agreeExcept f x y \<Longrightarrow> ''journal'' \<noteq> f \<Longrightarrow> n_journal x = n_journal y"
  "agreeExcept f x y \<Longrightarrow> ''volume'' \<noteq> f \<Longrightarrow> n_volume x = n_volume y"
  "agreeExcept f x y \<Longrightarrow> ''pages'' \<noteq> f \<Longrightarrow> n_pages x = n_pages y"
  unfolding agreeExcept_def by blast+

lemma field_cases:
  obtains "n = ''title''" | "n = ''authors''" | "n = ''year''" | "n = ''journal''"
    | "n = ''volume''" | "n = ''pages''" | "n \<notin> set fieldNames"
  unfolding fieldNames_def by auto

lemma agreeExcept_present:
  assumes "agreeExcept f x y" "n \<noteq> f"
  shows "fieldPresent n x = fieldPresent n y"
  using assms(2)
  by (cases n rule: field_cases)
     (simp_all add: fieldPresent_simps agreeExcept_simps[OF assms(1)])

lemma agreeExcept_score:
  assumes "agreeExcept f x x'" "agreeExcept f v v'" "n \<noteq> f"
  shows "fieldScore n x v = fieldScore n x' v'"
  using assms(3)
  by (cases n rule: field_cases)
     (simp_all add: fieldScore_simps agreeExcept_simps[OF assms(1)] agreeExcept_simps[OF assms(2)])

lemma comparedScores_agree:
  assumes "agreeExcept f x x'" "agreeExcept f v v'" "f \<notin> set names"
  shows "comparedScores names x v = comparedScores names x' v'"
  using assms(3)
proof (induction names)
  case Nil
  show ?case by (simp add: comparedScores_def)
next
  case (Cons n names)
  then have nf: "n \<noteq> f" and "f \<notin> set names" by auto
  from Cons.IH[OF this(2)] agreeExcept_present[OF assms(1) nf] agreeExcept_present[OF assms(2) nf]
    agreeExcept_score[OF assms(1,2) nf]
  show ?case by (simp add: comparedScores_def)
qed

lemma comparedScores_weight:
  assumes "set names \<subseteq> set fieldNames"
  shows "(\<Sum>(n, s)\<leftarrow>comparedScores names x v. FIELD_WEIGHTS n) \<le> (\<Sum>n\<leftarrow>names. FIELD_WEIGHTS n)"
  using assms
proof (induction names)
  case Nil
  then show ?case by (simp add: comparedScores_def)
next
  case (Cons n names)
  then have "n \<in> set fieldNames" by simp
  from weight_facts(1)[OF this] have "0 \<le> FIELD_WEIGHTS n" by simp
  with Cons show ?case by (simp add: comparedScores_def)
qed

lemma distinct_fieldBlocks: "distinct (map (fst \<circ> snd) (fieldBlocks n v))"
  by (simp add: fieldBlocks_def)

lemma map_of_blocks:
  "distinct (map (fst \<circ> snd) bs) \<Longrightarrow> (p, n, s) \<in> set bs \<Longrightarrow>
   map_of (map snd (filter fst bs)) n = (if p then Some s else None)"
proof (induction bs)
  case Nil
  then show ?case by simp
next
  case (Cons b bs)
  obtain p' n' s' where b: "b = (p', n', s')" by (cases b)
  show ?case
  proof (cases "(p, n, s) = b")
    case True
    have "map_of (map snd (filter fst bs)) n = None"
      using Cons.prems(1) True b by (force simp: map_of_eq_None_iff image_iff)
    with True b show ?thesis by auto
  next
    case False
    with Cons.prems have in_bs: "(p, n, s) \<in> set bs" by simp
    then have "n \<noteq> n'" using Cons.prems(1) b by (force simp: image_iff)
    with Cons.IH in_bs Cons.prems(1) b show ?thesis by simp
  qed
qed

text \<open>
  C4 (weighted field score).  Each of title, authors, year, journal, volume and pages has a
  score in the result exactly when both normalised records have a non-empty value for it,
  and no other field has one.  The overall score is the weighted sum of the scores of the
  compared fields divided by the sum of the weights of the compared fields (0 when nothing
  is compared); both sums are accumulated in double arithmetic in the order of the fields,
  and the quotient is the double quotient.  The verdict is valid from the double 0.90,
  suspicious from the double 0.70 and below 0.90, and mismatch below 0.70.
\<close>

theorem computeMatchScore_weighted:
  "map_of (fieldScores (computeMatchScore e v)) ''title'' =
     (if n_title (normalizeExtracted e) \<noteq> [] \<and> n_title v \<noteq> []
      then Some (stringSimilarity (toLowerCase (n_title (normalizeExtracted e))) (toLowerCase (n_title v)))
      else None) \<and>
   map_of (fieldScores (computeMatchScore e v)) ''authors'' =
     (if n_authors (normalizeExtracted e) \<noteq> [] \<and> n_authors v \<noteq> []
      then Some (compareAuthors (n_authors (normalizeExtracted e)) (n_authors v)) else None) \<and>
   map_of (fieldScores (computeMatchScore e v)) ''year'' =
     (if truthyN (n_year (normalizeExtracted e)) \<and> truthyN (n_year v)
      then Some (if n_year (normalizeExtracted e) = n_year v then 1 else 0) else None) \<and>
   map_of (fieldScores (computeMatchScore e v)) ''journal'' =
     (if n_journal (normalizeExtracted e) \<noteq> [] \<and> n_journal v \<noteq> []
      then Some (stringSimilarity (toLowerCase (n_journal (normalizeExtracted e))) (toLowerCase (n_journal v)))
      else None) \<and>
   map_of (fieldScores (computeMatchScore e v)) ''volume'' =
     (if truthyScalar (n_volume (normalizeExtracted e)) \<and> truthyScalar (n_volume v)
      then Some (if String (n_volume (normalizeExtracted e)) = String (n_volume v) then 1 else 0)
      else None) \<and>
   map_of (fieldScores (computeMatchScore e v)) ''pages'' =
     (if truthyScalar (n_pages (normalizeExtracted e)) \<and> truthyScalar (n_pages v)
      then Some (comparePages (n_pages (normalizeExtracted e)) (n_pages v)) else None) \<and>
   set (map fst (fieldScores (computeMatchScore e v))) \<subseteq>
     {''title'', ''authors'', ''year'', ''journal'', ''volume'', ''pages''} \<and>
   distinct (map fst (fieldScores (computeMatchScore e v))) \<and>
   fieldsCompared (computeMatchScore e v) = length (fieldScores (computeMatchScore e v)) \<and>
   overall (computeMatchScore e v) =
     (if 0 < totalWeight (fieldScores (computeMatchScore e v))
      then fdiv (weightedSum (fieldScores (computeMatchScore e v)))
                (totalWeight (fieldScores (computeMatchScore e v)))
      else 0) \<and>
   fst (getValidationStatus (computeMatchScore e v) m) =
     (if roundDouble (90 / 100) \<le> overall (computeMatchScore e v) then Valid
      else if roundDouble (70 / 100) \<le> overall (computeMatchScore e v) then Suspicious
      else Mismatch)"
proof -
  let ?n = "normalizeExtracted e"
  let ?r = "computeMatchScore e v"
  note fs = fieldScores_computeMatchScore
  note mb = map_of_blocks[OF distinct_fieldBlocks]
  have 1: "map_of (fieldScores ?r) ''title'' =
     (if n_title ?n \<noteq> [] \<and> n_title v \<noteq> []
      then Some (stringSimilarity (toLowerCase (n_title ?n)) (toLowerCase (n_title v))) else None)"
    unfolding fs by (rule mb) (simp add: fieldBlocks_def)
  have 2: "map_of (fieldScores ?r) ''authors'' =
     (if n_authors ?n \<noteq> [] \<and> n_authors v \<noteq> []
      then Some (compareAuthors (n_authors ?n) (n_authors v)) else None)"
    using mb[of "length (n_authors ?n) \<noteq> 0 \<and> length (n_authors v) \<noteq> 0" "''authors''" _ ?n v]
    unfolding fs by (simp add: fieldBlocks_def)
  have 3: "map_of (fieldScores ?r) ''year'' =
     (if truthyN (n_year ?n) \<and> truthyN (n_year v)
      then Some (if n_year ?n = n_year v then 1 else 0) else None)"
    unfolding fs by (rule mb) (simp add: fieldBlocks_def)
  have 4: "map_of (fieldScores ?r) ''journal'' =
     (if n_journal ?n \<noteq> [] \<and> n_journal v \<noteq> []
      then Some (stringSimilarity (toLowerCase (n_journal ?n)) (toLowerCase (n_journal v))) else None)"
    unfolding fs by (rule mb) (simp add: fieldBlocks_def)
  have 5: "map_of (fieldScores ?r) ''volume'' =
     (if truthyScalar (n_volume ?n) \<and> truthyScalar (n_volume v)
      then Some (if String (n_volume ?n) = String (n_volume v) then 1 else 0) else None)"
    unfolding fs by (rule mb) (simp add: fieldBlocks_def)
  have 6: "map_of (fieldScores ?r) ''pages'' =
     (if truthyScalar (n_pages ?n) \<and> truthyScalar (n_pages v)
      then Some (comparePages (n_pages ?n) (n_pages v)) else None)"
    unfolding fs by (rule mb) (simp add: fieldBlocks_def)
  have sub: "set (map fst (fieldScores ?r)) \<subseteq> set fieldNames"
    unfolding fieldScores_compared by (auto simp: comparedScores_def)
  then have 7: "set (map fst (fieldScores ?r)) \<subseteq>
     {''title'', ''authors'', ''year'', ''journal'', ''volume'', ''pages''}"
    by (simp add: fieldNames_def)
  have "map fst (fieldScores ?r) = filter (\<lambda>n. fieldPresent n ?n \<and> fieldPresent n v) fieldNames"
    unfolding fieldScores_compared by (simp add: comparedScores_def comp_def)
  moreover have "distinct fieldNames" by (simp add: fieldNames_def)
  ultimately have 8: "distinct (map fst (fieldScores ?r))" by simp
  have 9: "fieldsCompared ?r = length (fieldScores ?r)"
    by (simp add: computeMatchScore_def Let_def)
  note 10 = overall_computeMatchScore[of e v]
  have 11: "fst (getValidationStatus ?r m) =
     (if roundDouble (90 / 100) \<le> overall ?r then Valid
      else if roundDouble (70 / 100) \<le> overall ?r then Suspicious else Mismatch)"
    by (simp add: getValidationStatus_def THRESHOLDS_valid_def THRESHOLDS_suspicious_def)
  from 1 2 3 4 5 6 7 8 9 10 11 show ?thesis by blast
qed

lemma scores_twoAuthors:
  "fieldScores (computeMatchScore citTwoAuthors recTwoAuthors) =
     [(''title'', 1), (''authors'', 1745144855606067 / 2251799813685248)]"
  "totalWeight [(''title'', 1), (''authors'', 1745144855606067 / 2251799813685248)] = 18"
  "fdiv (weightedSum [(''title'', 1), (''authors'', 1745144855606067 / 2251799813685248)]) 18
     = 2026619832316723 / 2251799813685248"
  "(2026619832316723 / 2251799813685248 :: rat) < roundDouble (90 / 100)"
  "roundDouble (70 / 100) \<le> (2026619832316723 / 2251799813685248 :: rat)"
  "(1745144855606067 / 2251799813685248 :: rat) =
     fadd (fmul 1 (roundDouble (7 / 10))) (fmul (fdiv 1 4) (roundDouble (3 / 10)))"
  by code_simp+

theorem computeMatchScore_weighted_witness:
  "map_of (fieldScores (computeMatchScore citTwoAuthors recTwoAuthors)) ''title'' = Some 1 \<and>
   map_of (fieldScores (computeMatchScore citTwoAuthors recTwoAuthors)) ''authors'' =
     Some (fadd (fmul 1 (roundDouble (7 / 10))) (fmul (fdiv 1 4) (roundDouble (3 / 10)))) \<and>
   map_of (fieldScores (computeMatchScore citTwoAuthors recTwoAuthors)) ''year'' = None \<and>
   overall (computeMatchScore citTwoAuthors recTwoAuthors) = 2026619832316723 / 2251799813685248 \<and>
   overall (computeMatchScore citTwoAuthors recTwoAuthors) < roundDouble (90 / 100) \<and>
   fst (getValidationStatus (computeMatchScore citTwoAuthors recTwoAuthors) ''DOI verified via CrossRef'')
     = Suspicious"
proof -
  let ?r = "computeMatchScore citTwoAuthors recTwoAuthors"
  note w = computeMatchScore_weighted [of citTwoAuthors recTwoAuthors "''DOI verified via CrossRef''"]
  from w have o: "overall ?r =
     (if 0 < totalWeight (fieldScores ?r)
      then fdiv (weightedSum (fieldScores ?r)) (totalWeight (fieldScores ?r)) else 0)" by blast
  from w have g: "fst (getValidationStatus ?r ''DOI verified via CrossRef'') =
     (if roundDouble (90 / 100) \<le> overall ?r then Valid
      else if roundDouble (70 / 100) \<le> overall ?r then Suspicious else Mismatch)" by blast
  have o': "overall ?r = 2026619832316723 / 2251799813685248"
    unfolding o scores_twoAuthors(1) by (simp only: scores_twoAuthors(2,3)) simp
  have g': "fst (getValidationStatus ?r ''DOI verified via CrossRef'') = Suspicious"
    unfolding g o' using scores_twoAuthors(4,5) by simp
  have m: "map_of (fieldScores ?r) ''title'' = Some 1"
    "map_of (fieldScores ?r) ''authors'' =
       Some (fadd (fmul 1 (roundDouble (7 / 10))) (fmul (fdiv 1 4) (roundDouble (3 / 10))))"
    "map_of (fieldScores ?r) ''year'' = None"
    unfolding scores_twoAuthors(1) scores_twoAuthors(6)[symmetric] by simp_all
  from m g' scores_twoAuthors(4) show ?thesis unfolding o' by simp
qed

text \<open>
  C9 (score monotonicity), as the code behaves.  Take two pairs of records that agree on
  every field but \<open>f\<close>.  In the first pair \<open>f\<close> is not compared (it is empty on one side at
  least); in the second pair both sides have a value for \<open>f\<close>, and the two values match:
  titles and journals are equal up to case, years are equal, volumes are equal as strings,
  pages are equal after normalisation, and for authors the family names of the first
  authors are non-empty and equal up to case, and so are those of the last authors when
  both lists have more than one author.  Then the overall score of the second pair, as
  computed in double arithmetic, is not below that of the first, for titles, journals and
  family names shorter than \<open>2^31\<close> code units.
\<close>

theorem score_monotone:
  assumes f: "f \<in> set fieldNames"
    and ae: "agreeExcept f (normalizeExtracted e) (normalizeExtracted e')"
    and av: "agreeExcept f v v'"
    and absent: "\<not> (fieldPresent f (normalizeExtracted e) \<and> fieldPresent f v)"
    and present: "fieldPresent f (normalizeExtracted e')" "fieldPresent f v'"
    and matching: "fieldMatches f (normalizeExtracted e') v'"
    and lim: "withinStringLimit (normalizeExtracted e)" "withinStringLimit v"
  shows "overall (computeMatchScore e v) \<le> overall (computeMatchScore e' v')"
proof -
  let ?x = "normalizeExtracted e" and ?x' = "normalizeExtracted e'"
  from f obtain A B where split: "fieldNames = A @ f # B" by (auto simp: in_set_conv_decomp)
  have "distinct fieldNames" by (simp add: fieldNames_def)
  then have fA: "f \<notin> set A" and fB: "f \<notin> set B" unfolding split by simp_all
  have "length fieldNames = 6" by (simp add: fieldNames_def)
  then have lAB: "length A + length B = 5" unfolding split by simp
  define pre where "pre = comparedScores A ?x v"
  define post where "post = comparedScores B ?x v"
  have one: "fieldScore f ?x' v' = 1" using present matching by (rule fieldScore_match)
  have before: "fieldScores (computeMatchScore e v) = pre @ post"
    using absent
    by (simp add: fieldScores_compared split comparedScores_append pre_def post_def)
       (simp add: comparedScores_def)
  have "fieldScores (computeMatchScore e' v') =
          comparedScores A ?x' v' @ (f, 1) # comparedScores B ?x' v'"
    using present one
    by (simp add: fieldScores_compared split comparedScores_append)
       (simp add: comparedScores_def)
  then have after: "fieldScores (computeMatchScore e' v') = pre @ (f, 1) # post"
    by (simp only: pre_def post_def comparedScores_agree[OF ae av fA]
          comparedScores_agree[OF ae av fB])
  have ok: "\<forall>(n, s) \<in> set (pre @ post).
              n \<in> set fieldNames \<and> (s = 1 \<or> 0 \<le> s \<and> s \<le> 1 - 1 / 2 ^ 34)"
  proof (clarify, rule conjI)
    fix n s assume m: "(n, s) \<in> set (pre @ post)"
    then have "(n, s) \<in> set (comparedScores A ?x v) \<or> (n, s) \<in> set (comparedScores B ?x v)"
      by (simp add: pre_def post_def)
    then have ns: "(n \<in> set A \<or> n \<in> set B) \<and> s = fieldScore n ?x v"
      using comparedScores_names by blast
    then show "n \<in> set fieldNames" unfolding split by auto
    from ns fieldScore_gap[OF lim, of n]
    show "s = 1 \<or> 0 \<le> s \<and> s \<le> 1 - 1 / 2 ^ 34" by simp
  qed
  have "(\<Sum>(n, s)\<leftarrow>pre @ (f, 1) # post. FIELD_WEIGHTS n) =
        (\<Sum>(n, s)\<leftarrow>comparedScores fieldNames ?x' v'. FIELD_WEIGHTS n)"
    by (simp only: after[symmetric] fieldScores_compared)
  also have "\<dots> \<le> (\<Sum>n\<leftarrow>fieldNames. FIELD_WEIGHTS n)"
    by (rule comparedScores_weight) simp
  also note all_weights
  finally have cap: "(\<Sum>(n, s)\<leftarrow>pre @ (f, 1) # post. FIELD_WEIGHTS n) \<le> 25" .
  have len: "length (pre @ post) \<le> 5"
    using comparedScores_length[of A ?x v] comparedScores_length[of B ?x v] lAB
    by (simp add: pre_def post_def)
  from ratio_mono[OF ok f cap len] show ?thesis
    by (simp only: overall_computeMatchScore[of e v] overall_computeMatchScore[of e' v'] before after)
qed

lemma normalizeExtracted_citD:
  "normalizeExtracted citD =
     \<lparr>n_title = ''deep learning'', n_authors = [\<lparr>n_family = ''smith'', n_given = []\<rparr>],
      n_year = Some 2020, n_journal = [], n_volume = Str [], n_pages = Str [], n_doi = []\<rparr>"
  by (simp add: normalizeExtracted_def citD_def emptyExtraction_def smith_def orEmpty_def orElse_def
        orEmptyS_def orElseS_def truthy_def truthyS_def)

lemma normalizeExtracted_citNoYear:
  "normalizeExtracted citNoYear =
     \<lparr>n_title = ''deep learning'', n_authors = [\<lparr>n_family = ''smith'', n_given = []\<rparr>],
      n_year = None, n_journal = [], n_volume = Str [], n_pages = Str [], n_doi = []\<rparr>"
  by (simp add: normalizeExtracted_def citNoYear_def emptyExtraction_def smith_def orEmpty_def orElse_def
        orEmptyS_def orElseS_def truthy_def truthyS_def)

theorem score_monotone_witness:
  "''year'' \<in> set fieldNames \<and>
   agreeExcept ''year'' (normalizeExtracted citNoYear) (normalizeExtracted citD) \<and>
   agreeExcept ''year'' recD recD \<and>
   \<not> (fieldPresent ''year'' (normalizeExtracted citNoYear) \<and> fieldPresent ''year'' recD) \<and>
   fieldPresent ''year'' (normalizeExtracted citD) \<and> fieldPresent ''year'' recD \<and>
   fieldMatches ''year'' (normalizeExtracted citD) recD \<and>
   withinStringLimit (normalizeExtracted citNoYear) \<and> withinStringLimit recD \<and>
   overall (computeMatchScore citNoYear recD) \<le> overall (computeMatchScore citD recD) \<and>
   overall (computeMatchScore citNoYear recD) = 7339199392751919 / 9007199254740992 \<and>
   overall (computeMatchScore citD recD) = 7756199358249187 / 9007199254740992"
proof -
  have h: "''year'' \<in> set fieldNames"
    "agreeExcept ''year'' (normalizeExtracted citNoYear) (normalizeExtracted citD)"
    "agreeExcept ''year'' recD recD"
    "\<not> (fieldPresent ''year'' (normalizeExtracted citNoYear) \<and> fieldPresent ''year'' recD)"
    "fieldPresent ''year'' (normalizeExtracted citD)" "fieldPresent ''year'' recD"
    "fieldMatches ''year'' (normalizeExtracted citD) recD"
    by code_simp+
  have l: "withinStringLimit (normalizeExtracted citNoYear)" "withinStringLimit recD"
    by (simp_all add: withinStringLimit_def normalizeExtracted_citNoYear recD_def)
  have v: "overall (computeMatchScore citNoYear recD) = 7339199392751919 / 9007199254740992"
    "overall (computeMatchScore citD recD) = 7756199358249187 / 9007199254740992"
    by code_simp+
  from score_monotone [OF h l] h l v show ?thesis by simp
qed

text \<open>
  C9, as worded, fails: a value equal to the other side's need not score 1.  The citation
  gains an authors list identical to that of the validated record, whose only author has
  no family name; \<^const>\<open>compareAuthors\<close> scores such a pair 0, and the overall score drops
  from 1 to the double nearest 2/3.
\<close>

theorem score_drops_without_family_name:
  "agreeExcept ''authors'' (normalizeExtracted citTitleYear) (normalizeExtracted citNoFamily) \<and>
   \<not> fieldPresent ''authors'' (normalizeExtracted citTitleYear) \<and>
   fieldPresent ''authors'' (normalizeExtracted citNoFamily) \<and>
   fieldPresent ''authors'' recNoFamily \<and>
   n_authors (normalizeExtracted citNoFamily) = n_authors recNoFamily \<and>
   fieldScores (computeMatchScore citTitleYear recNoFamily) = [(''title'', 1), (''year'', 1)] \<and>
   fieldScores (computeMatchScore citNoFamily recNoFamily) =
     [(''title'', 1), (''authors'', 0), (''year'', 1)] \<and>
   overall (computeMatchScore citTitleYear recNoFamily) = 1 \<and>
   overall (computeMatchScore citNoFamily recNoFamily) = roundDouble (2 / 3) \<and>
   overall (computeMatchScore citNoFamily recNoFamily) <
     overall (computeMatchScore citTitleYear recNoFamily)"
  by code_simp

section \<open>Properties of validation\<close>

lemma getValidationStatus_range:
  "fst (getValidationStatus ms m) = Valid \<or> fst (getValidationStatus ms m) = Suspicious \<or>
   fst (getValidationStatus ms m) = Mismatch"
  by (simp add: getValidationStatus_def)

lemma verdictSet_setVerdict: "verdictSet (setVerdict c bag ms m)"
  using getValidationStatus_range[of ms m] by (auto simp: verdictSet_def setVerdict_def)

lemma validateCitation_doi_Return:
  "validateCitation_doi env c u = Inr (Return c') \<Longrightarrow> verdictSet c'"
  by (auto simp: validateCitation_doi_def Let_def verdictSet_setVerdict split: option.splits)

lemma validateCitation_pmid_Return:
  "validateCitation_pmid env c u = Inr (Return c') \<Longrightarrow> verdictSet c'"
  by (auto simp: validateCitation_pmid_def verdictSet_setVerdict split: option.splits sum.splits)

lemma validateCitation_search_Return:
  "validateCitation_search env c u = Inr (Return c') \<Longrightarrow> verdictSet c'"
  by (auto simp: validateCitation_search_def Let_def verdictSet_setVerdict
        split: option.splits sum.splits if_splits)

lemma tryCatch_cases:
  "(\<exists>c'. tryCatch r = Inr (Return c') \<and> r = Inr (Return c')) \<or> tryCatch r = Inr Next"
  by (cases r) (auto simp: tryCatch_def intro: flow.exhaust)

text \<open>
  C10 (validation is total).  For every citation and whatever the external lookups do
  (throw, find nothing, or return a work), \<^const>\<open>validateCitation\<close> returns; the citation
  then has a validation object and one of the verdicts valid, suspicious, mismatch,
  invalid.
\<close>

theorem validateCitation_total:
  "\<exists>c. validateCitation env citation userEmail = Inr c \<and>
       validationStatus c \<in> {Some Valid, Some Suspicious, Some Mismatch, Some Invalid} \<and>
       validation c \<noteq> None"
proof -
  define c0 where "c0 = citation\<lparr>validation := Some emptyValidation\<rparr>"
  define s1 where "s1 = (if truthy (doi c0) then tryCatch (validateCitation_doi env c0 userEmail) else Inr Next)"
  define s2 where "s2 = (if truthyS (pmid c0) then tryCatch (validateCitation_pmid env c0 userEmail) else Inr Next)"
  define s3 where "s3 = (if truthy (query_bibliographic c0) \<or> truthy (raw_text c0)
                         then tryCatch (validateCitation_search env c0 userEmail) else Inr Next)"
  define fin where "fin = c0\<lparr>validationStatus := Some Invalid,
                               validationMessage := Some ''Could not verify citation''\<rparr>"
  have v: "validateCitation env citation userEmail =
      (case s1 of Inl e \<Rightarrow> Inl e | Inr (Return c) \<Rightarrow> Inr c
       | Inr Next \<Rightarrow> (case s2 of Inl e \<Rightarrow> Inl e | Inr (Return c) \<Rightarrow> Inr c
          | Inr Next \<Rightarrow> (case s3 of Inl e \<Rightarrow> Inl e | Inr (Return c) \<Rightarrow> Inr c | Inr Next \<Rightarrow> Inr fin)))"
    unfolding validateCitation_def Let_def s1_def s2_def s3_def fin_def c0_def by (rule refl)
  have r1: "(\<exists>c'. s1 = Inr (Return c') \<and> verdictSet c') \<or> s1 = Inr Next"
    using tryCatch_cases[of "validateCitation_doi env c0 userEmail"] validateCitation_doi_Return
    by (auto simp: s1_def)
  have r2: "(\<exists>c'. s2 = Inr (Return c') \<and> verdictSet c') \<or> s2 = Inr Next"
    using tryCatch_cases[of "validateCitation_pmid env c0 userEmail"] validateCitation_pmid_Return
    by (auto simp: s2_def)
  have r3: "(\<exists>c'. s3 = Inr (Return c') \<and> verdictSet c') \<or> s3 = Inr Next"
    using tryCatch_cases[of "validateCitation_search env c0 userEmail"] validateCitation_search_Return
    by (auto simp: s3_def)
  have f: "verdictSet fin" by (simp add: verdictSet_def fin_def c0_def)
  from r1 r2 r3 f have "\<exists>c. validateCitation env citation userEmail = Inr c \<and> verdictSet c"
    unfolding v by (elim disjE exE conjE) simp_all
  then show ?thesis by (simp add: verdictSet_def)
qed

theorem validateCitation_total_witness:
  "\<exists>c. validateCitation servicesDown citFull [] = Inr c \<and>
       validationStatus c = Some Invalid \<and> validation c = Some emptyValidation"
proof -
  from validateCitation_total [of servicesDown citFull "[]"]
  obtain c where c: "validateCitation servicesDown citFull [] = Inr c" by blast
  have "validateCitation servicesDown citFull [] =
          Inr (citFull\<lparr>validation := Some emptyValidation, validationStatus := Some Invalid,
                       validationMessage := Some ''Could not verify citation''\<rparr>)"
    by (simp add: validateCitation_def validateCitation_doi_def validateCitation_pmid_def
          validateCitation_search_def Let_def tryCatch_def catchNull_def servicesDown_def
          citFull_def emptyExtraction_sel truthy_def truthyS_def)
  with c have "validationStatus c = Some Invalid \<and> validation c = Some emptyValidation" by auto
  with c show ?thesis by blast
qed

section \<open>Properties of the rate limiter\<close>

lemma inWindow_append_now: "inWindow now (inWindow now tss @ [now]) = inWindow now tss @ [now]"
  by (simp add: inWindow_def)

lemma processQueue_fifo:
  "\<exists>k \<le> length (queue l).
     queue (processQueue now l) = drop k (queue l) \<and>
     started (processQueue now l) = started l @ take k (queue l) \<and>
     (\<forall>j < k. belowLimit (activeRequests l + int j) (maxConcurrent l) \<and>
              belowLimit (int (length (inWindow now (requestTimestamps l))) + int j)
                         (requestsPerMinute l))"
proof (induction now l rule: processQueue.induct)
  case (1 now l)
  show ?case
  proof (cases "length (queue l) > 0 \<and> canProceed now l")
    case False
    then have "queue (processQueue now l) = queue l \<and> started (processQueue now l) = started l"
      by (subst (1 2) processQueue.simps) (auto simp: cleanTimestamps_def)
    then show ?thesis by (intro exI[of _ 0]) simp
  next
    case True
    define l' where "l' = executeTask now (hd (queue l)) ((cleanTimestamps now l)\<lparr>queue := tl (queue l)\<rparr>)"
    from True obtain t q where q: "queue l = t # q" by (cases "queue l") auto
    have eq: "processQueue now l = processQueue now l'"
      using True by (subst processQueue.simps) (simp add: l'_def)
    have sel: "queue l' = q" "started l' = started l @ [t]"
      "activeRequests l' = activeRequests l + 1"
      "requestTimestamps l' = inWindow now (requestTimestamps l) @ [now]"
      "maxConcurrent l' = maxConcurrent l" "requestsPerMinute l' = requestsPerMinute l"
      by (simp_all add: l'_def executeTask_def cleanTimestamps_def q)
    from True have "0 < length (queue l)" "canProceed now l" by simp_all
    from "1.IH"[OF this] obtain k where k: "k \<le> length q"
      "queue (processQueue now l') = drop k q"
      "started (processQueue now l') = (started l @ [t]) @ take k q"
      "\<forall>j < k. belowLimit (activeRequests l + 1 + int j) (maxConcurrent l) \<and>
               belowLimit (int (length (inWindow now (requestTimestamps l) @ [now])) + int j)
                          (requestsPerMinute l)"
      unfolding l'_def[symmetric] sel inWindow_append_now by blast
    have lim: "belowLimit (activeRequests l + int j) (maxConcurrent l) \<and>
               belowLimit (int (length (inWindow now (requestTimestamps l))) + int j)
                          (requestsPerMinute l)" if "j < Suc k" for j
    proof (cases j)
      case 0
      with True show ?thesis by (simp add: canProceed_def Let_def)
    next
      case (Suc j')
      with that have "j' < k" by simp
      with k(4) have b: "belowLimit (activeRequests l + 1 + int j') (maxConcurrent l) \<and>
               belowLimit (int (length (inWindow now (requestTimestamps l) @ [now])) + int j')
                          (requestsPerMinute l)" by blast
      have "activeRequests l + 1 + int j' = activeRequests l + int j"
        "int (length (inWindow now (requestTimestamps l) @ [now])) + int j' =
         int (length (inWindow now (requestTimestamps l))) + int j"
        using Suc by simp_all
      with b show ?thesis by (simp only:)
    qed
    show ?thesis
      by (intro exI[of _ "Suc k"]) (use k lim in \<open>simp add: eq q\<close>)
  qed
qed

lemma schedule_cases:
  "(canProceed now l \<longrightarrow>
      started (schedule now task l) = started l @ [task] \<and> queue (schedule now task l) = queue l) \<and>
   (\<not> canProceed now l \<longrightarrow>
      started (schedule now task l) = started l \<and> queue (schedule now task l) = queue l @ [task])"
  by (simp add: schedule_def executeTask_def cleanTimestamps_def Let_def)

text \<open>
  C7 (admission and queue order), as the code behaves.  \<^const>\<open>processQueue\<close> starts a prefix
  of the queue, in queue order, and leaves the rest in place; each task it starts is
  started while the in-flight count is below \<open>maxConcurrent\<close> and the number of timestamps
  within the last 60 seconds is below \<open>requestsPerMinute\<close>.  \<^const>\<open>schedule\<close> starts the new
  task at once when both limits permit, whatever is waiting in the queue, and otherwise
  appends it at the end of the queue.
\<close>

theorem queue_is_fifo:
  "(\<exists>k \<le> length (queue l).
      queue (processQueue now l) = drop k (queue l) \<and>
      started (processQueue now l) = started l @ take k (queue l) \<and>
      (\<forall>j < k. belowLimit (activeRequests l + int j) (maxConcurrent l) \<and>
               belowLimit (int (length (inWindow now (requestTimestamps l))) + int j)
                          (requestsPerMinute l))) \<and>
   (if canProceed now l
    then started (schedule now task l) = started l @ [task] \<and> queue (schedule now task l) = queue l
    else started (schedule now task l) = started l \<and> queue (schedule now task l) = queue l @ [task])"
  using processQueue_fifo[of l now] schedule_cases[of now l task] by simp

lemmas limiter_simps = schedule_def taskSettled_def executeTask_def cleanTimestamps_def canProceed_def
  getDelayMs_def belowLimit_def inWindow_def RateLimiter_def orInfinity_def Let_def processQueue.simps

theorem queue_is_fifo_witness:
  "(\<exists>k \<le> length (queue twoWaiting).
      queue (processQueue 500 twoWaiting) = drop k (queue twoWaiting) \<and>
      started (processQueue 500 twoWaiting) = started twoWaiting @ take k (queue twoWaiting) \<and>
      (\<forall>j < k. belowLimit (activeRequests twoWaiting + int j) (maxConcurrent twoWaiting) \<and>
               belowLimit (int (length (inWindow 500 (requestTimestamps twoWaiting))) + int j)
                          (requestsPerMinute twoWaiting))) \<and>
   queue (processQueue 500 twoWaiting) = [''C''] \<and>
   started (processQueue 500 twoWaiting) = [''A'', ''B''] \<and>
   started (schedule 500 ''D'' twoWaiting) = [''A'', ''D''] \<and>
   queue (schedule 500 ''D'' twoWaiting) = [''B'', ''C'']"
proof -
  have c: "canProceed 500 twoWaiting" by (simp add: twoWaiting_def limiter_simps)
  have e: "queue (processQueue 500 twoWaiting) = [''C'']"
    "started (processQueue 500 twoWaiting) = [''A'', ''B'']"
    by (simp_all add: twoWaiting_def limiter_simps)
  have s: "started twoWaiting = [''A'']" "queue twoWaiting = [''B'', ''C'']"
    by (simp_all add: twoWaiting_def)
  from queue_is_fifo [of twoWaiting 500 "''D''"] c e s show ?thesis by simp
qed

text \<open>
  With one request per minute: A runs at time 0; B, scheduled at 2000, has to wait, and a
  timer is armed for 60010.  C, scheduled at 60005, is started at once: it begins
  execution ahead of B, which was queued before it and is still waiting.  In the second
  run B and C both wait; the timers start B only, and D, scheduled much later, is started
  ahead of C, which has been waiting in the queue since time 3000.
\<close>

theorem later_task_overtakes:
  "queue (schedule 2000 ''B'' (taskSettled 1000 (schedule 0 ''A'' onePerMinute))) = [''B''] \<and>
   timers (schedule 2000 ''B'' (taskSettled 1000 (schedule 0 ''A'' onePerMinute))) = [60010] \<and>
   started overtaking = [''A'', ''C''] \<and> queue overtaking = [''B''] \<and>
   queue bothWaiting = [''B'', ''C''] \<and> timers bothWaiting = [60010, 60010] \<and>
   started leftBehind = [''A'', ''B'', ''D''] \<and> queue leftBehind = [''C'']"
  by (simp add: overtaking_def leftBehind_def bothWaiting_def onePerMinute_def timerFired_def
        limiter_simps)

section \<open>Properties of the window loop\<close>

lemma inWindow_idem: "inWindow t (inWindow t tss) = inWindow t tss"
  by (simp add: inWindow_def)

lemma schedule_still_closed:
  assumes "\<not> canProceed t l"
  shows "\<not> canProceed t (schedule t c l)"
proof -
  have "schedule t c l =
          (if getDelayMs t ((cleanTimestamps t l)\<lparr>queue := queue l @ [c]\<rparr>) > 0
           then (cleanTimestamps t l)\<lparr>queue := queue l @ [c],
                  timers := timers l @
                    [t + getDelayMs t ((cleanTimestamps t l)\<lparr>queue := queue l @ [c]\<rparr>)]\<rparr>
           else (cleanTimestamps t l)\<lparr>queue := queue l @ [c]\<rparr>)"
    using assms by (simp add: schedule_def Let_def cleanTimestamps_def)
  then have "canProceed t (schedule t c l) = canProceed t l"
    by (simp add: canProceed_def cleanTimestamps_def Let_def inWindow_idem)
  with assms show ?thesis by simp
qed

lemma startValidation_admitted:
  assumes "canProceed t (validationLimiter rs)"
  shows "startValidation t c rs =
           (validationTask_begin c (rs\<lparr>validationLimiter := schedule t c (validationLimiter rs)\<rparr>))
             \<lparr>pendingValidations := pendingValidations rs @ [c]\<rparr>"
  using assms schedule_cases[of t "validationLimiter rs" c]
  by (simp add: startValidation_def limiterStep_def)

lemma startValidation_queued:
  assumes "\<not> canProceed t (validationLimiter rs)"
  shows "startValidation t c rs =
           rs\<lparr>validationLimiter := schedule t c (validationLimiter rs),
              pendingValidations := pendingValidations rs @ [c]\<rparr>"
  using assms schedule_cases[of t "validationLimiter rs" c]
  by (simp add: startValidation_def limiterStep_def)

lemma startValidations_Cons:
  "startValidations t (c # cs) rs = startValidations t cs (startValidation t c rs)"
  by (simp add: startValidations_def)

lemma startValidations_queued:
  assumes "\<not> canProceed t (validationLimiter rs)"
  shows "started (validationLimiter (startValidations t cs rs)) = started (validationLimiter rs) \<and>
         queue (validationLimiter (startValidations t cs rs)) = queue (validationLimiter rs) @ cs \<and>
         state (startValidations t cs rs) = state rs \<and>
         pendingValidations (startValidations t cs rs) = pendingValidations rs @ cs \<and>
         pendingIncompleteEnd (startValidations t cs rs) = pendingIncompleteEnd rs \<and>
         extractionIndex (startValidations t cs rs) = extractionIndex rs"
  using assms
proof (induction cs arbitrary: rs)
  case Nil
  show ?case by (simp add: startValidations_def)
next
  case (Cons c cs)
  let ?r = "startValidation t c rs"
  have r: "?r = rs\<lparr>validationLimiter := schedule t c (validationLimiter rs),
                    pendingValidations := pendingValidations rs @ [c]\<rparr>"
    using Cons.prems by (rule startValidation_queued)
  have "\<not> canProceed t (validationLimiter ?r)"
    using schedule_still_closed[OF Cons.prems, of c] by (simp add: r)
  from Cons.IH[OF this] schedule_cases[of t "validationLimiter rs" c] Cons.prems
  show ?case by (simp add: startValidations_Cons r)
qed

lemma validationTask_begin_sel:
  assumes "\<not> shouldCancel (state rs)"
  shows "validationLimiter (validationTask_begin c rs) = validationLimiter rs"
    "pendingValidations (validationTask_begin c rs) = pendingValidations rs"
    "pendingIncompleteEnd (validationTask_begin c rs) = pendingIncompleteEnd rs"
    "extractionIndex (validationTask_begin c rs) = extractionIndex rs"
    "shouldCancel (state (validationTask_begin c rs)) = False"
    "extractions (state (validationTask_begin c rs)) =
       extractions (state rs) @ map finalizeIncomplete (incompleteOnes [c])"
    "processingResults (state (validationTask_begin c rs)) =
       processingResults (state rs) @ map finalizeIncomplete (incompleteOnes [c])"
  using assms by (simp_all add: validationTask_begin_def addExtraction_def incompleteOnes_def)

lemma startValidations_effect:
  assumes "\<not> shouldCancel (state rs)"
  shows "(\<exists>k \<le> length cs.
           started (validationLimiter (startValidations t cs rs)) =
             started (validationLimiter rs) @ take k cs \<and>
           queue (validationLimiter (startValidations t cs rs)) =
             queue (validationLimiter rs) @ drop k cs \<and>
           extractions (state (startValidations t cs rs)) =
             extractions (state rs) @ map finalizeIncomplete (incompleteOnes (take k cs)) \<and>
           processingResults (state (startValidations t cs rs)) =
             processingResults (state rs) @ map finalizeIncomplete (incompleteOnes (take k cs))) \<and>
         shouldCancel (state (startValidations t cs rs)) = False \<and>
         pendingValidations (startValidations t cs rs) = pendingValidations rs @ cs \<and>
         pendingIncompleteEnd (startValidations t cs rs) = pendingIncompleteEnd rs \<and>
         extractionIndex (startValidations t cs rs) = extractionIndex rs"
  using assms
proof (induction cs arbitrary: rs)
  case Nil
  then show ?case by (simp add: startValidations_def incompleteOnes_def)
next
  case (Cons c cs)
  let ?l = "validationLimiter rs"
  let ?r = "startValidation t c rs"
  show ?case
  proof (cases "canProceed t ?l")
    case False
    from startValidations_queued[OF False, of "c # cs"] Cons.prems
    show ?thesis by (intro conjI exI[of _ 0]) (simp_all add: incompleteOnes_def)
  next
    case True
    let ?m = "rs\<lparr>validationLimiter := schedule t c ?l\<rparr>"
    have m: "\<not> shouldCancel (state ?m)" using Cons.prems by simp
    note b = validationTask_begin_sel[OF m, of c]
    have r: "?r = (validationTask_begin c ?m)\<lparr>pendingValidations := pendingValidations rs @ [c]\<rparr>"
      using True by (rule startValidation_admitted)
    from schedule_cases[of t ?l c] True
    have sc: "started (schedule t c ?l) = started ?l @ [c]" "queue (schedule t c ?l) = queue ?l"
      by simp_all
    have sel: "validationLimiter ?r = schedule t c ?l"
      "pendingValidations ?r = pendingValidations rs @ [c]"
      "pendingIncompleteEnd ?r = pendingIncompleteEnd rs"
      "extractionIndex ?r = extractionIndex rs"
      "shouldCancel (state ?r) = False"
      "extractions (state ?r) = extractions (state rs) @ map finalizeIncomplete (incompleteOnes [c])"
      "processingResults (state ?r) =
         processingResults (state rs) @ map finalizeIncomplete (incompleteOnes [c])"
      unfolding r using b by simp_all
    from sel(5) have nc: "\<not> shouldCancel (state ?r)" by simp
    from Cons.IH[OF nc] obtain k where k: "k \<le> length cs"
      "started (validationLimiter (startValidations t cs ?r)) = started (validationLimiter ?r) @ take k cs"
      "queue (validationLimiter (startValidations t cs ?r)) = queue (validationLimiter ?r) @ drop k cs"
      "extractions (state (startValidations t cs ?r)) =
         extractions (state ?r) @ map finalizeIncomplete (incompleteOnes (take k cs))"
      "processingResults (state (startValidations t cs ?r)) =
         processingResults (state ?r) @ map finalizeIncomplete (incompleteOnes (take k cs))"
      and rest: "shouldCancel (state (startValidations t cs ?r)) = False"
      "pendingValidations (startValidations t cs ?r) = pendingValidations ?r @ cs"
      "pendingIncompleteEnd (startValidations t cs ?r) = pendingIncompleteEnd ?r"
      "extractionIndex (startValidations t cs ?r) = extractionIndex ?r"
      by blast
    have io: "incompleteOnes (c # take k cs) = incompleteOnes [c] @ incompleteOnes (take k cs)"
      by (simp add: incompleteOnes_def)
    show ?thesis
      unfolding startValidations_Cons
      using k rest by (intro conjI exI[of _ "Suc k"]) (simp_all add: sel sc io)
  qed
qed

lemma createErrorExtraction_sel:
  "error (createErrorExtraction idx w msg) = True"
  "windowIndex (createErrorExtraction idx w msg) = Some w"
  "errorMessage (createErrorExtraction idx w msg) = Some msg"
  "validationStatus (createErrorExtraction idx w msg) = Some Invalid"
  by (simp_all add: createErrorExtraction_def)

text \<open>
  C8 (a failed window does not abort the run).  When the extraction call of window \<open>i\<close>
  throws and the user has not cancelled, the loop hands every pending extraction to the
  validation limiter as it stands, in order: the limiter starts a prefix of them at once
  and queues the others, and each started task that is still incomplete is stored in the
  state as incomplete before anything else happens.  The loop then records exactly one
  error extraction, marked with the window's 1-based index, empties the pending list, and
  goes on with the remaining windows.  In Scenario E (five windows, the call for the third
  throws, the second left one citation pending) the state holds in the end the citation
  of window 1, the pending citation of window 2 unmerged (still incomplete, cut at the
  end), one error record for window 3, and the citations of windows 4 and 5.
\<close>

theorem failed_window_continues:
  "(\<not> shouldCancel (state rs) \<and> outcome w = Inl msg \<and>
    rs1 = awaitEvents env userEmail (events w) rs \<and> \<not> shouldCancel (state rs1) \<and>
    rs2 = processWindow env userEmail totalWindows i w rs \<longrightarrow>
      processWindows env userEmail totalWindows i (w # ws) rs =
        processWindows env userEmail totalWindows (Suc i) ws rs2 \<and>
      \<not> shouldCancel (state rs2) \<and>
      pendingValidations rs2 = pendingValidations rs1 @ pendingIncompleteEnd rs1 \<and>
      pendingIncompleteEnd rs2 = [] \<and>
      extractionIndex rs2 = extractionIndex rs1 + 1 \<and>
      (\<exists>k \<le> length (pendingIncompleteEnd rs1).
         started (validationLimiter rs2) =
           started (validationLimiter rs1) @ take k (pendingIncompleteEnd rs1) \<and>
         queue (validationLimiter rs2) =
           queue (validationLimiter rs1) @ drop k (pendingIncompleteEnd rs1) \<and>
         extractions (state rs2) =
           extractions (state rs1) @
           map finalizeIncomplete (incompleteOnes (take k (pendingIncompleteEnd rs1))) @
           [createErrorExtraction (extractionIndex rs1) (int i + 1) msg]) \<and>
      error (createErrorExtraction (extractionIndex rs1) (int i + 1) msg) \<and>
      windowIndex (createErrorExtraction (extractionIndex rs1) (int i + 1) msg) = Some (int i + 1)) \<and>
   map_option (\<lambda>r. map windowIndex (extractions (state r)))
     (processAllWindows servicesDown [] None emptyState scenarioE scenarioE_final) =
     Some [Some 1, Some 2, Some 3, Some 4, Some 5] \<and>
   map_option (\<lambda>r. map error (extractions (state r)))
     (processAllWindows servicesDown [] None emptyState scenarioE scenarioE_final) =
     Some [False, False, True, False, False] \<and>
   map_option (\<lambda>r. map validationStatus (extractions (state r)))
     (processAllWindows servicesDown [] None emptyState scenarioE scenarioE_final) =
     Some [Some Invalid, Some Incomplete, Some Invalid, Some Invalid, Some Invalid] \<and>
   map_option (\<lambda>r. extractions (state r) ! 1)
     (processAllWindows servicesDown [] None emptyState scenarioE scenarioE_final) =
     Some (finalizeIncomplete (assignIdentity (processExtraction rawCutAtEnd 1 2) 1)) \<and>
   map_option (\<lambda>r. extractions (state r) ! 2)
     (processAllWindows servicesDown [] None emptyState scenarioE scenarioE_final) =
     Some (createErrorExtraction 2 3 ''boom'') \<and>
   ext_complete (finalizeIncomplete (assignIdentity (processExtraction rawCutAtEnd 1 2) 1)) = Some False \<and>
   position (finalizeIncomplete (assignIdentity (processExtraction rawCutAtEnd 1 2) 1)) = Some ''end''"
proof (intro conjI impI)
  assume a: "\<not> shouldCancel (state rs) \<and> outcome w = Inl msg \<and>
    rs1 = awaitEvents env userEmail (events w) rs \<and> \<not> shouldCancel (state rs1) \<and>
    rs2 = processWindow env userEmail totalWindows i w rs"
  then have nc: "\<not> shouldCancel (state rs)" and o: "outcome w = Inl msg"
    and rs1: "rs1 = awaitEvents env userEmail (events w) rs" and nc1: "\<not> shouldCancel (state rs1)"
    and rs2: "rs2 = processWindow env userEmail totalWindows i w rs" by blast+
  let ?p = "pendingIncompleteEnd rs1"
  let ?v = "startValidations (clock w) ?p rs1"
  let ?e = "createErrorExtraction (extractionIndex rs1) (int i + 1) msg"
  have r2: "rs2 = ?v\<lparr>pendingIncompleteEnd := [], state := addExtraction (state ?v) ?e,
                       extractionIndex := extractionIndex rs1 + 1\<rparr>"
    by (simp add: rs2 processWindow_def o processWindow_error_def rs1)
  from startValidations_effect[OF nc1, of ?p "clock w"]
  obtain k where k: "k \<le> length ?p"
    "started (validationLimiter ?v) = started (validationLimiter rs1) @ take k ?p"
    "queue (validationLimiter ?v) = queue (validationLimiter rs1) @ drop k ?p"
    "extractions (state ?v) = extractions (state rs1) @ map finalizeIncomplete (incompleteOnes (take k ?p))"
    and rest: "shouldCancel (state ?v) = False"
    "pendingValidations ?v = pendingValidations rs1 @ ?p"
    by blast
  show "processWindows env userEmail totalWindows i (w # ws) rs =
        processWindows env userEmail totalWindows (Suc i) ws rs2"
    using nc by (simp add: rs2)
  show "\<not> shouldCancel (state rs2)" using rest(1) by (simp add: r2 addExtraction_def)
  show "pendingValidations rs2 = pendingValidations rs1 @ pendingIncompleteEnd rs1"
    using rest(2) by (simp add: r2)
  show "pendingIncompleteEnd rs2 = []" by (simp add: r2)
  show "extractionIndex rs2 = extractionIndex rs1 + 1" by (simp add: r2)
  show "\<exists>k \<le> length (pendingIncompleteEnd rs1).
         started (validationLimiter rs2) =
           started (validationLimiter rs1) @ take k (pendingIncompleteEnd rs1) \<and>
         queue (validationLimiter rs2) =
           queue (validationLimiter rs1) @ drop k (pendingIncompleteEnd rs1) \<and>
         extractions (state rs2) =
           extractions (state rs1) @
           map finalizeIncomplete (incompleteOnes (take k (pendingIncompleteEnd rs1))) @
           [createErrorExtraction (extractionIndex rs1) (int i + 1) msg]"
    using k by (intro exI[of _ k]) (simp add: r2 addExtraction_def)
  show "error (createErrorExtraction (extractionIndex rs1) (int i + 1) msg)"
    by (simp add: createErrorExtraction_sel)
  show "windowIndex (createErrorExtraction (extractionIndex rs1) (int i + 1) msg) = Some (int i + 1)"
    by (simp add: createErrorExtraction_sel)
next
  show "map_option (\<lambda>r. map windowIndex (extractions (state r)))
     (processAllWindows servicesDown [] None emptyState scenarioE scenarioE_final) =
     Some [Some 1, Some 2, Some 3, Some 4, Some 5]" by code_simp
  show "map_option (\<lambda>r. map error (extractions (state r)))
     (processAllWindows servicesDown [] None emptyState scenarioE scenarioE_final) =
     Some [False, False, True, False, False]" by code_simp
  show "map_option (\<lambda>r. map validationStatus (extractions (state r)))
     (processAllWindows servicesDown [] None emptyState scenarioE scenarioE_final) =
     Some [Some Invalid, Some Incomplete, Some Invalid, Some Invalid, Some Invalid]" by code_simp
  show "map_option (\<lambda>r. extractions (state r) ! 1)
     (processAllWindows servicesDown [] None emptyState scenarioE scenarioE_final) =
     Some (finalizeIncomplete (assignIdentity (processExtraction rawCutAtEnd 1 2) 1))" by code_simp
  show "map_option (\<lambda>r. extractions (state r) ! 2)
     (processAllWindows servicesDown [] None emptyState scenarioE scenarioE_final) =
     Some (createErrorExtraction 2 3 ''boom'')" by code_simp
  show "ext_complete (finalizeIncomplete (assignIdentity (processExtraction rawCutAtEnd 1 2) 1)) = Some False"
    by code_simp
  show "position (finalizeIncomplete (assignIdentity (processExtraction rawCutAtEnd 1 2) 1)) = Some ''end''"
    by code_simp
qed

theorem failed_window_continues_witness:
  "\<not> shouldCancel (state (windowsRun 2)) \<and> outcome (scenarioE ! 2) = Inl ''boom'' \<and>
   \<not> shouldCancel (state (awaitEvents servicesDown [] (events (scenarioE ! 2)) (windowsRun 2))) \<and>
   pendingIncompleteEnd (windowsRun 2) = [assignIdentity (processExtraction rawCutAtEnd 1 2) 1] \<and>
   map title (extractions (state (windowsRun 2))) = [Some ''Alpha''] \<and>
   processWindows servicesDown [] 5 2 [scenarioE ! 2] (windowsRun 2) = windowsRun 3 \<and>
   pendingIncompleteEnd (windowsRun 3) = [] \<and>
   extractionIndex (windowsRun 3) = 3 \<and>
   map title (extractions (state (windowsRun 3))) = [Some ''Alpha'', Some ''Quantum effects on'', None] \<and>
   map error (extractions (state (windowsRun 3))) = [False, False, True] \<and>
   extractions (state (windowsRun 3)) ! 2 = createErrorExtraction 2 3 ''boom''"
proof -
  let ?w = "scenarioE ! 2"
  let ?rs1 = "awaitEvents servicesDown [] (events ?w) (windowsRun 2)"
  let ?rs2 = "processWindow servicesDown [] 5 2 ?w (windowsRun 2)"
  have h: "\<not> shouldCancel (state (windowsRun 2))" "outcome ?w = Inl ''boom''"
    "\<not> shouldCancel (state ?rs1)"
    by code_simp+
  from failed_window_continues [of "windowsRun 2" ?w "''boom''" ?rs1 servicesDown "[]" ?rs2 5 2 "[]"] h
  have c: "processWindows servicesDown [] 5 2 [?w] (windowsRun 2) = ?rs2"
    "pendingIncompleteEnd ?rs2 = []"
    "extractionIndex ?rs2 = extractionIndex ?rs1 + 1"
    by simp_all
  have e: "?rs2 = windowsRun 3" by code_simp
  have v: "pendingIncompleteEnd (windowsRun 2) = [assignIdentity (processExtraction rawCutAtEnd 1 2) 1]"
    "map title (extractions (state (windowsRun 2))) = [Some ''Alpha'']"
    "extractionIndex ?rs1 = 2"
    "map title (extractions (state (windowsRun 3))) = [Some ''Alpha'', Some ''Quantum effects on'', None]"
    "map error (extractions (state (windowsRun 3))) = [False, False, True]"
    "extractions (state (windowsRun 3)) ! 2 = createErrorExtraction 2 3 ''boom''"
    by code_simp+
  from c h v show ?thesis by (simp add: e)
qed

end
